theory Spec2Isabelle
  imports Complex_Main "HOL-Library.AList" "HOL-Library.Multiset" "HOL-Library.Product_Lexorder"
begin

section \<open>Stock price reports: the diff pipeline and the HTML report pipeline\<close>

text \<open>
  The development embeds \<^verbatim>\<open>generate_diff.py\<close> and \<^verbatim>\<open>generate_report.py\<close>.
  Conventions of the embedding:
  \<^item> a Python \<^verbatim>\<open>str\<close> is a \<^typ>\<open>string\<close>, each \<^typ>\<open>char\<close> read as a code point below 256;
  \<^item> a Python \<^verbatim>\<open>float\<close> is a \<open>pyfloat\<close>: a real number, an infinity or NaN;
  \<^item> \<^verbatim>\<open>None\<close> is \<^const>\<open>None\<close> of an option type;
  \<^item> the builtin \<^verbatim>\<open>float(s)\<close> is a parameter \<open>fl\<close> of type \<open>string \<Rightarrow> pyfloat option\<close>,
    \<^const>\<open>None\<close> standing for \<^verbatim>\<open>ValueError\<close>;
  \<^item> what \<^verbatim>\<open>git\<close> prints is a field of the environment record \<open>git_env\<close>;
  \<^item> an uncaught exception is a value of \<open>py_error\<close> in the left summand of a result.
\<close>

subsection \<open>Floats\<close>

text \<open>
  The values of a Python \<^verbatim>\<open>float\<close>: the finite ones, the two infinities and NaN. The
  operations follow IEEE 754 on the infinities and on NaN (NaN makes every result NaN
  and every comparison false; opposite infinities do not add; an infinity times zero is
  NaN). On finite values the arithmetic is exact: rounding, overflow to an infinity and
  the sign of zero are outside the model. Dividing by zero raises
  \<^verbatim>\<open>ZeroDivisionError\<close> in Python; every division of the scripts is guarded by a test of
  the divisor against zero, so the value the model gives there is never used.
  The equality of the logic agrees with \<^verbatim>\<open>==\<close> except on NaN; the scripts compare
  floats for equality with 0 only, where the two agree.
\<close>

datatype pyfloat = Fin real | PInf | NInf | NaN

definition signed_inf :: "real \<Rightarrow> pyfloat" where
  "signed_inf a = (if a = 0 then NaN else if 0 < a then PInf else NInf)"

instantiation pyfloat :: "{zero, one, uminus, minus, times, inverse, abs, ord, numeral, power}"
begin

definition zero_pyfloat :: pyfloat where
  "zero_pyfloat = Fin 0"

definition one_pyfloat :: pyfloat where
  "one_pyfloat = Fin 1"

fun plus_pyfloat :: "pyfloat \<Rightarrow> pyfloat \<Rightarrow> pyfloat" where
  "plus_pyfloat NaN y = NaN"
| "plus_pyfloat x NaN = NaN"
| "plus_pyfloat (Fin a) (Fin b) = Fin (a + b)"
| "plus_pyfloat PInf NInf = NaN"
| "plus_pyfloat NInf PInf = NaN"
| "plus_pyfloat PInf y = PInf"
| "plus_pyfloat x PInf = PInf"
| "plus_pyfloat NInf y = NInf"
| "plus_pyfloat x NInf = NInf"

fun uminus_pyfloat :: "pyfloat \<Rightarrow> pyfloat" where
  "uminus_pyfloat (Fin a) = Fin (- a)"
| "uminus_pyfloat PInf = NInf"
| "uminus_pyfloat NInf = PInf"
| "uminus_pyfloat NaN = NaN"

definition minus_pyfloat :: "pyfloat \<Rightarrow> pyfloat \<Rightarrow> pyfloat" where
  "minus_pyfloat x y = x + (- y)"

fun times_pyfloat :: "pyfloat \<Rightarrow> pyfloat \<Rightarrow> pyfloat" where
  "times_pyfloat NaN y = NaN"
| "times_pyfloat x NaN = NaN"
| "times_pyfloat (Fin a) (Fin b) = Fin (a * b)"
| "times_pyfloat (Fin a) PInf = signed_inf a"
| "times_pyfloat (Fin a) NInf = signed_inf (- a)"
| "times_pyfloat PInf (Fin b) = signed_inf b"
| "times_pyfloat NInf (Fin b) = signed_inf (- b)"
| "times_pyfloat PInf PInf = PInf"
| "times_pyfloat NInf NInf = PInf"
| "times_pyfloat PInf NInf = NInf"
| "times_pyfloat NInf PInf = NInf"

fun divide_pyfloat :: "pyfloat \<Rightarrow> pyfloat \<Rightarrow> pyfloat" where
  "divide_pyfloat NaN y = NaN"
| "divide_pyfloat x NaN = NaN"
| "divide_pyfloat (Fin a) (Fin b) = Fin (a / b)"
| "divide_pyfloat (Fin a) y = Fin 0"
| "divide_pyfloat PInf (Fin b) = signed_inf b"
| "divide_pyfloat NInf (Fin b) = signed_inf (- b)"
| "divide_pyfloat x y = NaN"

definition inverse_pyfloat :: "pyfloat \<Rightarrow> pyfloat" where
  "inverse_pyfloat x = Fin 1 div x"

fun abs_pyfloat :: "pyfloat \<Rightarrow> pyfloat" where
  "abs_pyfloat (Fin a) = Fin \<bar>a\<bar>"
| "abs_pyfloat PInf = PInf"
| "abs_pyfloat NInf = PInf"
| "abs_pyfloat NaN = NaN"

fun less_pyfloat :: "pyfloat \<Rightarrow> pyfloat \<Rightarrow> bool" where
  "less_pyfloat NaN y = False"
| "less_pyfloat x NaN = False"
| "less_pyfloat (Fin a) (Fin b) = (a < b)"
| "less_pyfloat x NInf = False"
| "less_pyfloat PInf y = False"
| "less_pyfloat NInf y = True"
| "less_pyfloat x PInf = True"

definition less_eq_pyfloat :: "pyfloat \<Rightarrow> pyfloat \<Rightarrow> bool" where
  "less_eq_pyfloat x y = (x < y \<or> (x \<noteq> NaN \<and> x = y))"

instance
proof
  fix a b c :: pyfloat
  show "a + b + c = a + (b + c)"
    by (cases a; cases b; cases c) simp_all
qed

end

text \<open>
  A numbering of the floats that keeps the order of those that are not NaN; it serves to
  state what the sort does on such keys.
\<close>

fun rank :: "pyfloat \<Rightarrow> int \<times> real" where
  "rank NInf = (- 1, 0)"
| "rank (Fin a) = (0, a)"
| "rank PInf = (1, 0)"
| "rank NaN = (2, 0)"

subsection \<open>String methods used by the scripts\<close>

text \<open>\<^verbatim>\<open>s.startswith(p)\<close>.\<close>

definition startswith :: "string \<Rightarrow> string \<Rightarrow> bool" where
  "startswith s p = (take (length p) s = p)"

text \<open>
  \<^verbatim>\<open>str.isspace\<close> on one character, for code points below 256: TAB, LF, VT, FF, CR,
  the separators FS, GS, RS, US, the space, NEL and the no-break space.
\<close>

definition isspace :: "char \<Rightarrow> bool" where
  "isspace c = (c \<in> set [CHR 0x09, CHR 0x0A, CHR 0x0B, CHR 0x0C, CHR 0x0D,
                          CHR 0x1C, CHR 0x1D, CHR 0x1E, CHR 0x1F, CHR 0x20,
                          CHR 0x85, CHR 0xA0])"

text \<open>\<^verbatim>\<open>s.strip()\<close>: leading and trailing whitespace removed.\<close>

definition strip :: "string \<Rightarrow> string" where
  "strip s = rev (dropWhile isspace (rev (dropWhile isspace s)))"

text \<open>
  \<^verbatim>\<open>s.split(d)\<close> for a one-character separator: the pieces between the separators;
  the empty string gives one empty piece, so the result is never the empty list and the
  last case below is never taken.
\<close>

fun split :: "string \<Rightarrow> char \<Rightarrow> string list" where
  "split [] d = [[]]"
| "split (c # cs) d =
     (if c = d then [] # split cs d
      else (case split cs d of
              piece # pieces \<Rightarrow> (c # piece) # pieces
            | [] \<Rightarrow> [[c]]))"

text \<open>
  \<^verbatim>\<open>s.replace(old, new)\<close>: every occurrence of \<open>old\<close>, found from left to right without
  overlap, is replaced; an empty \<open>old\<close> matches before every character and at the end.
\<close>

function replace :: "string \<Rightarrow> string \<Rightarrow> string \<Rightarrow> string" where
  "replace s old new =
     (if old = [] then new @ concat (map (\<lambda>c. c # new) s)
      else if s = [] then []
      else if startswith s old then new @ replace (drop (length old) s) old new
      else hd s # replace (tl s) old new)"
  by pat_completeness auto
termination
  by (relation "measure (\<lambda>(s, old, new). length s)") auto

declare replace.simps [simp del]

text \<open>\<^verbatim>\<open>os.path.basename(p)\<close> (POSIX): what follows the last slash.\<close>

definition basename :: "string \<Rightarrow> string" where
  "basename p = last (split p CHR ''/'')"

subsection \<open>Errors\<close>

datatype py_error = ValueError

subsection \<open>The field parser (\<^verbatim>\<open>parse_price_file\<close>, the same text in both scripts)\<close>

text \<open>
  One round of the loop over the lines: the state is the pair \<open>(price, timestamp)\<close>.
  A \<^verbatim>\<open>ValueError\<close> of \<^verbatim>\<open>float\<close> is caught and passed over.
\<close>

definition parse_line ::
  "(string \<Rightarrow> pyfloat option) \<Rightarrow> pyfloat option \<times> string option \<Rightarrow> string
     \<Rightarrow> pyfloat option \<times> string option" where
  "parse_line fl st line =
     (if startswith line ''Price:'' then
        (let price_str = strip (replace line ''Price:'' '''')
         in case fl price_str of
              Some v \<Rightarrow> (Some v, snd st)
            | None \<Rightarrow> st)
      else if startswith line ''Updated:'' then
        (fst st, Some (strip (replace line ''Updated:'' '''')))
      else st)"

definition parse_price_file ::
  "(string \<Rightarrow> pyfloat option) \<Rightarrow> string option \<Rightarrow> pyfloat option \<times> string option" where
  "parse_price_file fl content =
     (case content of
        None \<Rightarrow> (None, None)
      | Some c \<Rightarrow>
          if c = [] then (None, None)
          else foldl (parse_line fl) (None, None) (split c CHR 0x0A))"

text \<open>
  Python's \<^verbatim>\<open>float\<close> on the strings of decimal digits, where it is exact, and on
  the literals \<^verbatim>\<open>inf\<close> and \<^verbatim>\<open>nan\<close>; every other string is refused here. It stands in
  for the builtin when the model is run on a file.
\<close>

definition digit_val :: "char \<Rightarrow> nat option" where
  "digit_val c = map_of (zip ''0123456789'' [0 ..< 10]) c"

fun digits_val :: "nat \<Rightarrow> string \<Rightarrow> nat option" where
  "digits_val acc [] = Some acc"
| "digits_val acc (c # cs) =
     (case digit_val c of
        None \<Rightarrow> None
      | Some d \<Rightarrow> digits_val (10 * acc + d) cs)"

definition float_digits :: "string \<Rightarrow> pyfloat option" where
  "float_digits s =
     (if s = ''inf'' then Some PInf
      else if s = ''nan'' then Some NaN
      else if s = [] then None
      else map_option (\<lambda>n. Fin (real n)) (digits_val 0 s))"

subsection \<open>The repository as the scripts see it\<close>

text \<open>
  Each field is what one \<^verbatim>\<open>git\<close> call of the scripts returns:
  \<^item> \<open>rev_parse_ok\<close>: \<^verbatim>\<open>git rev-parse --is-inside-work-tree\<close> has return code 0;
  \<^item> \<open>log_hashes\<close>: the output of \<^verbatim>\<open>git log -2 --pretty=format:%H\<close>;
  \<^item> \<open>log_history\<close>: the output of \<^verbatim>\<open>git log -10 --pretty=format:%H|%ai\<close>;
  \<^item> \<open>ls_files\<close>: the output of \<^verbatim>\<open>git ls-files *.txt\<close>;
  \<^item> \<open>git_show\<close>: the output of \<^verbatim>\<open>git show\<close> on the argument \<^verbatim>\<open>hash:path\<close>, or
    \<^const>\<open>None\<close> when the call fails (\<^verbatim>\<open>CalledProcessError\<close>).
  The environment is the one of the directory the script runs in; the optional change of
  directory of \<^verbatim>\<open>generate_diff.py\<close> comes before and is not part of the model.
\<close>

record git_env =
  rev_parse_ok :: bool
  log_hashes :: string
  log_history :: string
  ls_files :: string
  git_show :: "string \<Rightarrow> string option"

definition get_file_content :: "git_env \<Rightarrow> string \<Rightarrow> string \<Rightarrow> string option" where
  "get_file_content env commit_hash filepath =
     map_option strip (git_show env (commit_hash @ '':'' @ filepath))"

definition get_all_stock_files :: "git_env \<Rightarrow> string list" where
  "get_all_stock_files env =
     filter (\<lambda>f. f \<noteq> [] \<and> f \<noteq> ''main.txt'') (split (strip (ls_files env)) CHR 0x0A)"

text \<open>\<^verbatim>\<open>os.path.basename(filepath).replace('.txt', '')\<close>, the ticker of a file.\<close>

definition ticker_of :: "string \<Rightarrow> string" where
  "ticker_of filepath = replace (basename filepath) ''.txt'' []"

subsection \<open>The list sort\<close>

text \<open>
  \<^verbatim>\<open>list.sort\<close> compares keys with \<^verbatim>\<open><\<close> only. On keys that \<^verbatim>\<open><\<close> orders linearly
  the result is the stable sort whatever the algorithm. NaN keys are not so ordered,
  and what the call returns then is what the algorithm of CPython does: on a list of
  fewer than 64 items it takes the longest run at the front that does not descend, or
  that descends strictly and is then reversed (\<^verbatim>\<open>count_run\<close>), and inserts the other
  items one by one at the place a binary search finds (\<^verbatim>\<open>binarysort\<close>). The model is
  this algorithm at every length; on 64 items and more CPython merges several such
  runs, which gives the same list when the keys are linearly ordered.
  \<open>lt a b\<close> is the comparison of the key of \<open>a\<close> with the key of \<open>b\<close>.
\<close>

fun run_ascending :: "('a \<Rightarrow> 'a \<Rightarrow> bool) \<Rightarrow> 'a \<Rightarrow> 'a list \<Rightarrow> 'a list \<times> 'a list" where
  "run_ascending lt prev [] = ([], [])"
| "run_ascending lt prev (x # xs) =
     (if lt x prev then ([], x # xs)
      else (case run_ascending lt x xs of (run, rest) \<Rightarrow> (x # run, rest)))"

fun run_descending :: "('a \<Rightarrow> 'a \<Rightarrow> bool) \<Rightarrow> 'a \<Rightarrow> 'a list \<Rightarrow> 'a list \<times> 'a list" where
  "run_descending lt prev [] = ([], [])"
| "run_descending lt prev (x # xs) =
     (if lt x prev then (case run_descending lt x xs of (run, rest) \<Rightarrow> (x # run, rest))
      else ([], x # xs))"

text \<open>The first run, in ascending order, and the items after it.\<close>

fun count_run :: "('a \<Rightarrow> 'a \<Rightarrow> bool) \<Rightarrow> 'a list \<Rightarrow> 'a list \<times> 'a list" where
  "count_run lt [] = ([], [])"
| "count_run lt (x # xs) =
     (if xs \<noteq> [] \<and> lt (hd xs) x
      then (case run_descending lt x xs of (run, rest) \<Rightarrow> (rev (x # run), rest))
      else (case run_ascending lt x xs of (run, rest) \<Rightarrow> (x # run, rest)))"

text \<open>The binary search of \<^verbatim>\<open>binarysort\<close> for the place of \<open>pivot\<close> in \<open>a\<close>.\<close>

function bisect :: "('a \<Rightarrow> 'a \<Rightarrow> bool) \<Rightarrow> 'a \<Rightarrow> 'a list \<Rightarrow> nat \<Rightarrow> nat \<Rightarrow> nat" where
  "bisect lt pivot a l r =
     (if l < r then
        (let p = l + (r - l) div 2
         in if lt pivot (a ! p) then bisect lt pivot a l p
            else bisect lt pivot a (p + 1) r)
      else l)"
  by pat_completeness auto
termination
  by (relation "measure (\<lambda>(lt, pivot, a, l, r). r - l)") auto

declare bisect.simps [simp del]

definition binary_insert :: "('a \<Rightarrow> 'a \<Rightarrow> bool) \<Rightarrow> 'a list \<Rightarrow> 'a \<Rightarrow> 'a list" where
  "binary_insert lt a pivot =
     (let l = bisect lt pivot a 0 (length a) in take l a @ pivot # drop l a)"

definition binarysort :: "('a \<Rightarrow> 'a \<Rightarrow> bool) \<Rightarrow> 'a list \<Rightarrow> 'a list \<Rightarrow> 'a list" where
  "binarysort lt run rest = foldl (binary_insert lt) run rest"

definition list_sort :: "('a \<Rightarrow> 'a \<Rightarrow> bool) \<Rightarrow> 'a list \<Rightarrow> 'a list" where
  "list_sort lt xs =
     (if length xs < 2 then xs
      else (case count_run lt xs of (run, rest) \<Rightarrow> binarysort lt run rest))"

text \<open>
  \<^verbatim>\<open>list.sort(key=k, reverse=True)\<close>: the list is reversed, sorted in ascending order of
  the keys, and reversed again.
\<close>

definition sort_reverse :: "('a \<Rightarrow> pyfloat) \<Rightarrow> 'a list \<Rightarrow> 'a list" where
  "sort_reverse k xs = rev (list_sort (\<lambda>a b. k a < k b) (rev xs))"

subsection \<open>The diff pipeline (\<^verbatim>\<open>generate_diff.py\<close>)\<close>

definition get_last_two_commits :: "git_env \<Rightarrow> string option \<times> string option" where
  "get_last_two_commits env =
     (let commits = split (strip (log_hashes env)) CHR 0x0A
      in if length commits < 2 then (None, None)
         else (Some (commits ! 0), Some (commits ! 1)))"

text \<open>
  The call site passes a float for \<open>new_price\<close>; \<open>old_price\<close> keeps its test for
  \<^verbatim>\<open>None\<close>.
\<close>

definition calculate_percentage_change :: "pyfloat option \<Rightarrow> pyfloat \<Rightarrow> pyfloat" where
  "calculate_percentage_change old_price new_price =
     (case old_price of
        None \<Rightarrow> 0
      | Some old \<Rightarrow> if old = 0 then 0 else ((new_price - old) / old) * 100)"

record change =
  ticker :: string
  previous_price :: pyfloat
  current_price :: pyfloat
  price_change :: pyfloat
  percent_change :: pyfloat
  previous_time :: "string option"
  current_time :: "string option"

text \<open>
  The comparison in the loop of \<^verbatim>\<open>generate_diff_report\<close>: from the two parsed
  observations of one file, the record that is appended, or nothing.
\<close>

definition change_record ::
  "string \<Rightarrow> pyfloat option \<times> string option \<Rightarrow> pyfloat option \<times> string option \<Rightarrow> change option" where
  "change_record name cur prev =
     (case (fst cur, fst prev) of
        (Some cur_price, Some prev_price) \<Rightarrow>
          Some \<lparr>ticker = name,
                previous_price = prev_price,
                current_price = cur_price,
                price_change = cur_price - prev_price,
                percent_change = calculate_percentage_change (Some prev_price) cur_price,
                previous_time = snd prev,
                current_time = snd cur\<rparr>
      | _ \<Rightarrow> None)"

text \<open>One round of the loop over the stock files.\<close>

definition diff_step ::
  "(string \<Rightarrow> pyfloat option) \<Rightarrow> git_env \<Rightarrow> string \<Rightarrow> string \<Rightarrow> change list \<Rightarrow> string
     \<Rightarrow> change list" where
  "diff_step fl env current_commit previous_commit changes filepath =
     (let name = ticker_of filepath;
          current_content = get_file_content env current_commit filepath;
          previous_content = get_file_content env previous_commit filepath
      in case change_record name (parse_price_file fl current_content)
                                 (parse_price_file fl previous_content) of
           Some r \<Rightarrow> changes @ [r]
         | None \<Rightarrow> changes)"

text \<open>
  What the scripts print, one constructor for each \<^verbatim>\<open>print\<close>, with the numbers and
  strings it interpolates.
\<close>

datatype console_line =
    Error_not_a_repository            \<comment> \<open>"Error: Not in a Git repository!"\<close>
  | Usage_heading                     \<comment> \<open>"Usage when testing:"\<close>
  | Usage_example                     \<comment> \<open>the example command line\<close>
  | Error_not_enough_commits          \<comment> \<open>"Error: Not enough commits to compare"\<close>
  | Comparing_commits                 \<comment> \<open>"Comparing commits:"\<close>
  | Current_commit string             \<comment> \<open>"  Current:  " and eight characters\<close>
  | Previous_commit string            \<comment> \<open>"  Previous: " and eight characters\<close>
  | No_stock_files                    \<comment> \<open>"No stock files found"\<close>
  | Diff_report_generated             \<comment> \<open>"Diff report generated: artifacts/changes.diff"\<close>
  | Total_stocks_analyzed nat         \<comment> \<open>"Total stocks analyzed: n"\<close>
  | Gainers_losers_unchanged nat nat nat  \<comment> \<open>"Gainers: g | Losers: l | Unchanged: u"\<close>
  | Generating_report                 \<comment> \<open>"Generating HTML report..."\<close>
  | No_commits_found                  \<comment> \<open>"No commits found"\<close>
  | Processing_stocks nat             \<comment> \<open>"Processing n stocks for charts..."\<close>
  | Html_report_generated             \<comment> \<open>"HTML report generated: artifacts/report.html"\<close>
  | Charts_created nat                \<comment> \<open>"Charts created for n stocks"\<close>
  | Table_includes nat                \<comment> \<open>"Table includes n stocks"\<close>

text \<open>
  The data written to \<^verbatim>\<open>artifacts/changes.diff\<close>: the two header lines, the count, the
  three groups (of which the file lists the first ten gainers and losers) and the
  detailed list. The fixed-width layout of the numbers is not part of the model.
\<close>

record diff_report =
  diff_previous_update :: string
  diff_current_update :: string
  diff_total :: nat
  diff_gainers :: "change list"
  diff_losers :: "change list"
  diff_unchanged :: "change list"
  diff_top_gainers :: "change list"
  diff_top_losers :: "change list"
  diff_changes :: "change list"

text \<open>\<^verbatim>\<open>str(x)\<close> of an optional string, as an f-string prints it.\<close>

definition str_opt :: "string option \<Rightarrow> string" where
  "str_opt x = (case x of None \<Rightarrow> ''None'' | Some s \<Rightarrow> s)"

definition write_diff_report :: "change list \<Rightarrow> diff_report" where
  "write_diff_report changes =
     \<lparr>diff_previous_update = (if changes \<noteq> [] then str_opt (previous_time (changes ! 0)) else ''N/A''),
      diff_current_update = (if changes \<noteq> [] then str_opt (current_time (changes ! 0)) else ''N/A''),
      diff_total = length changes,
      diff_gainers = filter (\<lambda>c. percent_change c > 0) changes,
      diff_losers = filter (\<lambda>c. percent_change c < 0) changes,
      diff_unchanged = filter (\<lambda>c. percent_change c = 0) changes,
      diff_top_gainers = take 10 (filter (\<lambda>c. percent_change c > 0) changes),
      diff_top_losers = take 10 (filter (\<lambda>c. percent_change c < 0) changes),
      diff_changes = changes\<rparr>"

text \<open>
  \<^verbatim>\<open>generate_diff_report\<close>: the lines printed and the report written, if one is.
  \<^verbatim>\<open>not c\<close> holds of \<^verbatim>\<open>None\<close> and of the empty string.
\<close>

definition generate_diff_report ::
  "(string \<Rightarrow> pyfloat option) \<Rightarrow> git_env \<Rightarrow> console_line list \<times> diff_report option" where
  "generate_diff_report fl env =
     (case get_last_two_commits env of
        (Some current_commit, Some previous_commit) \<Rightarrow>
          if current_commit = [] \<or> previous_commit = [] then ([Error_not_enough_commits], None)
          else
            (let heading = [Comparing_commits, Current_commit (take 8 current_commit),
                            Previous_commit (take 8 previous_commit)];
                 stock_files = get_all_stock_files env
             in if stock_files = [] then (heading @ [No_stock_files], None)
                else
                  (let collected = foldl (diff_step fl env current_commit previous_commit) [] stock_files;
                       changes = sort_reverse (\<lambda>x. \<bar>percent_change x\<bar>) collected;
                       report = write_diff_report changes
                   in (heading @
                       [Diff_report_generated,
                        Total_stocks_analyzed (length changes),
                        Gainers_losers_unchanged (length (diff_gainers report))
                          (length (diff_losers report)) (length (diff_unchanged report))],
                       Some report)))
      | _ \<Rightarrow> ([Error_not_enough_commits], None))"

text \<open>
  A run of a script: the exit status of the process, the lines printed and the file
  written. An uncaught exception ends the process with status 1.
\<close>

record 'a run =
  exit_status :: nat
  console :: "console_line list"
  artifact :: "'a option"

definition main_diff :: "(string \<Rightarrow> pyfloat option) \<Rightarrow> git_env \<Rightarrow> diff_report run" where
  "main_diff fl env =
     (if \<not> rev_parse_ok env then
        \<lparr>exit_status = 1,
         console = [Error_not_a_repository, Usage_heading, Usage_example],
         artifact = None\<rparr>
      else
        (let (out, file) = generate_diff_report fl env
         in \<lparr>exit_status = 0, console = out, artifact = file\<rparr>))"

subsection \<open>The report pipeline (\<^verbatim>\<open>generate_report.py\<close>)\<close>

record commit =
  c_hash :: string
  c_timestamp :: string

text \<open>
  The loop of \<^verbatim>\<open>get_commit_history\<close> over the lines of the log. Unpacking
  \<^verbatim>\<open>line.split('|')\<close> into two names raises \<^verbatim>\<open>ValueError\<close> unless there are
  exactly two pieces.
\<close>

fun commits_of_lines :: "commit list \<Rightarrow> string list \<Rightarrow> py_error + commit list" where
  "commits_of_lines commits [] = Inr commits"
| "commits_of_lines commits (line # lines) =
     (if CHR ''|'' \<in> set line then
        (case split line CHR ''|'' of
           [commit_hash, timestamp] \<Rightarrow>
             commits_of_lines (commits @ [\<lparr>c_hash = commit_hash, c_timestamp = timestamp\<rparr>]) lines
         | _ \<Rightarrow> Inl ValueError)
      else commits_of_lines commits lines)"

definition get_commit_history :: "git_env \<Rightarrow> py_error + commit list" where
  "get_commit_history env = commits_of_lines [] (split (strip (log_history env)) CHR 0x0A)"

record observation =
  h_timestamp :: string
  h_price :: pyfloat

text \<open>\<^verbatim>\<open>timestamp or fallback\<close>: the fallback replaces \<^verbatim>\<open>None\<close> and the empty string.\<close>

definition or_else :: "string option \<Rightarrow> string \<Rightarrow> string" where
  "or_else timestamp fallback =
     (case timestamp of
        None \<Rightarrow> fallback
      | Some t \<Rightarrow> if t = [] then fallback else t)"

text \<open>One round of the loop of \<^verbatim>\<open>get_price_history\<close>.\<close>

definition history_step ::
  "(string \<Rightarrow> pyfloat option) \<Rightarrow> git_env \<Rightarrow> string \<Rightarrow> observation list \<Rightarrow> commit
     \<Rightarrow> observation list" where
  "history_step fl env filepath history c =
     (let content = get_file_content env (c_hash c) filepath;
          parsed = parse_price_file fl content
      in case fst parsed of
           Some price \<Rightarrow>
             history @ [\<lparr>h_timestamp = or_else (snd parsed) (c_timestamp c), h_price = price\<rparr>]
         | None \<Rightarrow> history)"

definition get_price_history ::
  "(string \<Rightarrow> pyfloat option) \<Rightarrow> git_env \<Rightarrow> string \<Rightarrow> commit list \<Rightarrow> observation list" where
  "get_price_history fl env name commits =
     foldl (history_step fl env (name @ ''.txt'')) [] commits"

text \<open>
  \<^verbatim>\<open>min\<close> and \<^verbatim>\<open>max\<close> of a non-empty list, as the builtins scan it. On the empty
  list they raise; \<open>calculate_statistics\<close> has returned before.
\<close>

fun py_min :: "pyfloat list \<Rightarrow> pyfloat" where
  "py_min (x # xs) = foldl (\<lambda>m y. if y < m then y else m) x xs"

fun py_max :: "pyfloat list \<Rightarrow> pyfloat" where
  "py_max (x # xs) = foldl (\<lambda>m y. if y > m then y else m) x xs"

text \<open>\<^verbatim>\<open>sum\<close>: the items are added from the left, starting from 0.\<close>

definition py_sum :: "pyfloat list \<Rightarrow> pyfloat" where
  "py_sum xs = foldl (+) 0 xs"

record stats =
  st_current :: pyfloat
  st_previous :: pyfloat
  st_min :: pyfloat
  st_max :: pyfloat
  st_avg :: pyfloat
  st_change :: pyfloat
  st_percent_change :: pyfloat

definition calculate_statistics :: "observation list \<Rightarrow> stats option" where
  "calculate_statistics history =
     (if history = [] then None
      else
        (let prices = map h_price history;
             current_price = prices ! 0;
             previous_price = (if length prices > 1 then prices ! 1 else current_price);
             min_price = py_min prices;
             max_price = py_max prices;
             avg_price = py_sum prices / Fin (real (length prices));
             price_change = current_price - previous_price;
             percent = (if previous_price \<noteq> 0
                        then (current_price - previous_price) / previous_price * 100
                        else 0)
         in Some \<lparr>st_current = current_price,
                  st_previous = previous_price,
                  st_min = min_price,
                  st_max = max_price,
                  st_avg = avg_price,
                  st_change = price_change,
                  st_percent_change = percent\<rparr>))"

record stock_data =
  sd_ticker :: string
  sd_stats :: stats
  sd_history :: "observation list"

record chart =
  labels :: "string list"
  prices :: "pyfloat list"

text \<open>
  One round of the first loop of \<^verbatim>\<open>generate_html_report\<close>: the state is the list
  \<open>all_stocks_data\<close> and the dictionary \<open>chart_data\<close>, an association list in insertion
  order whose assignment to a key already there keeps the key's place.
\<close>

definition chart_of :: "observation list \<Rightarrow> chart" where
  "chart_of history =
     \<lparr>labels = map (\<lambda>h. take 16 (h_timestamp h)) (rev history),
      prices = map h_price (rev history)\<rparr>"

definition chart_step ::
  "(string \<Rightarrow> pyfloat option) \<Rightarrow> git_env \<Rightarrow> commit list
     \<Rightarrow> stock_data list \<times> (string \<times> chart) list \<Rightarrow> string
     \<Rightarrow> stock_data list \<times> (string \<times> chart) list" where
  "chart_step fl env commits st name =
     (let history = get_price_history fl env name commits
      in case calculate_statistics history of
           Some s \<Rightarrow>
             (fst st @ [\<lparr>sd_ticker = name, sd_stats = s, sd_history = history\<rparr>],
              AList.update name (chart_of history) (snd st))
         | None \<Rightarrow> st)"

text \<open>
  One round of the second loop, over all the tickers and the two newest commits: the
  state is the triple of the counts of gainers, losers and unchanged.
\<close>

definition count_step ::
  "(string \<Rightarrow> pyfloat option) \<Rightarrow> git_env \<Rightarrow> commit list \<Rightarrow> nat \<times> nat \<times> nat \<Rightarrow> string
     \<Rightarrow> nat \<times> nat \<times> nat" where
  "count_step fl env commits totals name =
     (case calculate_statistics (get_price_history fl env name (take 2 commits)) of
        Some s \<Rightarrow>
          (case totals of (g, l, u) \<Rightarrow>
             if st_percent_change s > 0 then (g + 1, l, u)
             else if st_percent_change s < 0 then (g, l + 1, u)
             else (g, l, u + 1))
      | None \<Rightarrow> totals)"

text \<open>
  The data written to \<^verbatim>\<open>artifacts/report.html\<close>: the four summary cards, the chart
  containers of the gallery, the rows of the table, and the dictionary embedded as
  \<^verbatim>\<open>chartData\<close>, from which the page draws a chart into each container of the gallery.
\<close>

record html_report =
  rep_total_stocks :: nat
  rep_gainers :: nat
  rep_losers :: nat
  rep_unchanged :: nat
  rep_gallery :: "stock_data list"
  rep_table :: "stock_data list"
  rep_chart_data :: "(string \<times> chart) list"

definition generate_html_report ::
  "(string \<Rightarrow> pyfloat option) \<Rightarrow> git_env
     \<Rightarrow> console_line list \<times> (py_error + html_report option)" where
  "generate_html_report fl env =
     (case get_commit_history env of
        Inl e \<Rightarrow> ([Generating_report], Inl e)
      | Inr commits \<Rightarrow>
          if commits = [] then ([Generating_report, No_commits_found], Inr None)
          else
            (let stock_files = get_all_stock_files env
             in if stock_files = [] then ([Generating_report, No_stock_files], Inr None)
                else
                  (let tickers = map ticker_of (take 20 stock_files);
                       collected = foldl (chart_step fl env commits) ([], []) tickers;
                       all_stocks_data =
                         sort_reverse (\<lambda>x. \<bar>st_percent_change (sd_stats x)\<bar>) (fst collected);
                       chart_data = snd collected;
                       all_tickers = map ticker_of stock_files;
                       total_stats = foldl (count_step fl env commits) (0, 0, 0) all_tickers
                   in ([Generating_report,
                        Processing_stocks (length tickers),
                        Html_report_generated,
                        Charts_created (length (take 12 all_stocks_data)),
                        Table_includes (length (take 20 all_stocks_data))],
                       Inr (Some
                         \<lparr>rep_total_stocks = length all_tickers,
                          rep_gainers = fst total_stats,
                          rep_losers = fst (snd total_stats),
                          rep_unchanged = snd (snd total_stats),
                          rep_gallery = take 12 all_stocks_data,
                          rep_table = take 20 all_stocks_data,
                          rep_chart_data = chart_data\<rparr>)))))"

definition main_report :: "(string \<Rightarrow> pyfloat option) \<Rightarrow> git_env \<Rightarrow> html_report run" where
  "main_report fl env =
     (case generate_html_report fl env of
        (out, Inl e) \<Rightarrow> \<lparr>exit_status = 1, console = out, artifact = None\<rparr>
      | (out, Inr file) \<Rightarrow> \<lparr>exit_status = 0, console = out, artifact = file\<rparr>)"

subsection \<open>Example repositories\<close>

text \<open>
  Two revisions, \<open>c2\<close> the newer. \<open>AAA\<close> goes from 100 to 110, \<open>BBB\<close> from 0 to 5,
  \<open>CCC\<close> exists at the newer revision only, and \<open>main.txt\<close> is tracked.
\<close>

definition repo_two :: git_env where
  "repo_two =
     \<lparr>rev_parse_ok = True,
      log_hashes = ''c2\<newline>c1'',
      log_history = ''c2|2024-01-02 10:00:00 +0000\<newline>c1|2024-01-01 10:00:00 +0000'',
      ls_files = ''AAA.txt\<newline>BBB.txt\<newline>CCC.txt\<newline>main.txt\<newline>'',
      git_show = (\<lambda>a.
        if a = ''c2:AAA.txt'' then Some ''Price: 110\<newline>Updated: 2024-01-02 09:30:00\<newline>''
        else if a = ''c1:AAA.txt'' then Some ''Price: 100\<newline>Updated: 2024-01-01 09:30:00\<newline>''
        else if a = ''c2:BBB.txt'' then Some ''Price: 5\<newline>''
        else if a = ''c1:BBB.txt'' then Some ''Price: 0\<newline>''
        else if a = ''c2:CCC.txt'' then Some ''Price: 7\<newline>''
        else if a = ''c2:main.txt'' then Some ''Price: 1\<newline>''
        else if a = ''c1:main.txt'' then Some ''Price: 1\<newline>''
        else None)\<rparr>"

text \<open>One revision and one ticker file.\<close>

definition repo_one :: git_env where
  "repo_one =
     \<lparr>rev_parse_ok = True,
      log_hashes = ''c1'',
      log_history = ''c1|2024-01-01 10:00:00 +0000'',
      ls_files = ''AAA.txt\<newline>'',
      git_show = (\<lambda>a. if a = ''c1:AAA.txt'' then Some ''Price: 100\<newline>'' else None)\<rparr>"

text \<open>A work tree with a tracked ticker file and no revision yet.\<close>

definition repo_none :: git_env where
  "repo_none =
     \<lparr>rev_parse_ok = True,
      log_hashes = [],
      log_history = [],
      ls_files = ''AAA.txt\<newline>'',
      git_show = (\<lambda>a. None)\<rparr>"

text \<open>
  Two revisions; \<open>main.txt\<close> (1, then 2) and \<open>sub/main.txt\<close> (100, then 110) are both
  tracked.
\<close>

definition repo_shadow :: git_env where
  "repo_shadow =
     \<lparr>rev_parse_ok = True,
      log_hashes = ''c2\<newline>c1'',
      log_history = ''c2|2024-01-02 10:00:00 +0000\<newline>c1|2024-01-01 10:00:00 +0000'',
      ls_files = ''main.txt\<newline>sub/main.txt\<newline>'',
      git_show = (\<lambda>a.
        if a = ''c2:sub/main.txt'' then Some ''Price: 110\<newline>''
        else if a = ''c1:sub/main.txt'' then Some ''Price: 100\<newline>''
        else if a = ''c2:main.txt'' then Some ''Price: 2\<newline>''
        else if a = ''c1:main.txt'' then Some ''Price: 1\<newline>''
        else None)\<rparr>"

text \<open>One revision of a file with the price \<^verbatim>\<open>inf\<close>.\<close>

definition repo_inf :: git_env where
  "repo_inf =
     \<lparr>rev_parse_ok = True,
      log_hashes = ''c1'',
      log_history = ''c1|2024-01-01 10:00:00 +0000'',
      ls_files = ''AAA.txt\<newline>'',
      git_show = (\<lambda>a. if a = ''c1:AAA.txt'' then Some ''Price: inf\<newline>'' else None)\<rparr>"

text \<open>
  Two revisions of three files: every price is 100 in the older one; in the newer one
  \<open>A\<close> stands at 101, \<open>B\<close> at \<^verbatim>\<open>nan\<close> and \<open>C\<close> at 102.
\<close>

definition repo_nan :: git_env where
  "repo_nan =
     \<lparr>rev_parse_ok = True,
      log_hashes = ''c2\<newline>c1'',
      log_history = ''c2|2024-01-02 10:00:00 +0000\<newline>c1|2024-01-01 10:00:00 +0000'',
      ls_files = ''A.txt\<newline>B.txt\<newline>C.txt\<newline>'',
      git_show = (\<lambda>a.
        if a = ''c2:A.txt'' then Some ''Price: 101\<newline>''
        else if a = ''c2:B.txt'' then Some ''Price: nan\<newline>''
        else if a = ''c2:C.txt'' then Some ''Price: 102\<newline>''
        else Some ''Price: 100\<newline>'')\<rparr>"

text \<open>
  Twenty-one ticker files and two revisions: every price is 100, except that \<open>T21\<close>
  stands at 200 in the newer revision.
\<close>

definition repo_many :: git_env where
  "repo_many =
     \<lparr>rev_parse_ok = True,
      log_hashes = ''c2\<newline>c1'',
      log_history = ''c2|2024-01-02 10:00:00 +0000\<newline>c1|2024-01-01 10:00:00 +0000'',
      ls_files = ''T01.txt\<newline>T02.txt\<newline>T03.txt\<newline>T04.txt\<newline>T05.txt\<newline>T06.txt\<newline>T07.txt\<newline>T08.txt\<newline>T09.txt\<newline>T10.txt\<newline>T11.txt\<newline>T12.txt\<newline>T13.txt\<newline>T14.txt\<newline>T15.txt\<newline>T16.txt\<newline>T17.txt\<newline>T18.txt\<newline>T19.txt\<newline>T20.txt\<newline>T21.txt\<newline>'',
      git_show = (\<lambda>a. if a = ''c2:T21.txt'' then Some ''Price: 200\<newline>''
                      else Some ''Price: 100\<newline>'')\<rparr>"

text \<open>One revision of a file whose \<^verbatim>\<open>Updated:\<close> line has nothing after the prefix.\<close>

definition repo_blank :: git_env where
  "repo_blank =
     \<lparr>rev_parse_ok = True,
      log_hashes = ''c1'',
      log_history = ''c1|2024-01-01 10:00:00 +0000'',
      ls_files = ''AAA.txt\<newline>'',
      git_show = (\<lambda>a. if a = ''c1:AAA.txt'' then Some ''Updated:\<newline>Price: 5\<newline>''
                      else None)\<rparr>"

section \<open>Properties\<close>

subsection \<open>Float arithmetic\<close>

lemma numeral_pyfloat [code_unfold]: "numeral n = Fin (numeral n)"
proof (induction n)
  case One
  show ?case
    by (simp add: one_pyfloat_def)
next
  case (Bit0 n)
  have "numeral (num.Bit0 n) = (numeral n :: pyfloat) + numeral n"
    by (simp only: numeral.simps)
  also have "\<dots> = Fin (numeral n + numeral n)"
    by (simp add: Bit0.IH)
  also have "numeral n + numeral n = (numeral (num.Bit0 n) :: real)"
    by (simp only: numeral.simps)
  finally show ?case .
next
  case (Bit1 n)
  have "numeral (num.Bit1 n) = (numeral n :: pyfloat) + numeral n + 1"
    by (simp only: numeral.simps)
  also have "\<dots> = Fin (numeral n + numeral n + 1)"
    by (simp add: Bit1.IH one_pyfloat_def)
  also have "numeral n + numeral n + 1 = (numeral (num.Bit1 n) :: real)"
    by (simp only: numeral.simps)
  finally show ?case .
qed

lemma power_pyfloat: "Fin a ^ n = Fin (a ^ n)"
  by (induction n) (simp_all add: one_pyfloat_def)

lemmas pyfloat_arith = numeral_pyfloat power_pyfloat minus_pyfloat_def zero_pyfloat_def
  one_pyfloat_def less_eq_pyfloat_def

lemma abs_NaN: "(\<bar>x\<bar> = NaN) = (x = NaN)"
  by (cases x) simp_all

lemma less_rank: "x \<noteq> NaN \<Longrightarrow> y \<noteq> NaN \<Longrightarrow> (x < y) = (rank x < rank y)"
  by (cases x; cases y) simp_all

lemma less_eq_rank: "x \<noteq> NaN \<Longrightarrow> y \<noteq> NaN \<Longrightarrow> (x \<le> y) = (rank x \<le> rank y)"
  by (cases x; cases y) (auto simp: less_eq_pyfloat_def)

lemma rank_eq: "(rank x = rank y) = (x = y)"
  by (cases x; cases y) simp_all

subsection \<open>The list sort permutes\<close>

lemma run_ascending_append: "run_ascending lt prev xs = (run, rest) \<Longrightarrow> run @ rest = xs"
  by (induction xs arbitrary: prev run rest) (auto split: if_splits prod.splits)

lemma run_descending_append: "run_descending lt prev xs = (run, rest) \<Longrightarrow> run @ rest = xs"
  by (induction xs arbitrary: prev run rest) (auto split: if_splits prod.splits)

lemma mset_count_run: "count_run lt xs = (run, rest) \<Longrightarrow> mset run + mset rest = mset xs"
  by (cases xs)
    (auto split: if_splits prod.splits dest!: run_ascending_append run_descending_append)

lemma mset_binary_insert: "mset (binary_insert lt a pivot) = add_mset pivot (mset a)"
proof -
  have "mset (take l a) + mset (drop l a) = mset a" for l
    by (metis append_take_drop_id mset_append)
  then show ?thesis
    by (simp add: binary_insert_def Let_def)
qed

lemma mset_binarysort: "mset (binarysort lt run rest) = mset run + mset rest"
  unfolding binarysort_def
  by (induction rest arbitrary: run) (simp_all add: mset_binary_insert)

lemma mset_list_sort: "mset (list_sort lt xs) = mset xs"
  by (auto simp: list_sort_def mset_binarysort split: prod.splits dest: mset_count_run)

lemma mset_sort_reverse: "mset (sort_reverse k xs) = mset xs"
  by (simp add: sort_reverse_def mset_list_sort)

lemma set_sort_reverse: "set (sort_reverse k xs) = set xs"
  using mset_sort_reverse [of k xs] by (metis set_mset_mset)

lemma length_sort_reverse: "length (sort_reverse k xs) = length xs"
  using mset_sort_reverse [of k xs] by (metis size_mset)

subsection \<open>Only comparisons between items of the list matter\<close>

lemma run_ascending_cong:
  "\<forall>a\<in>S. \<forall>b\<in>S. lt a b = lt' a b \<Longrightarrow> prev \<in> S \<Longrightarrow> set xs \<subseteq> S
     \<Longrightarrow> run_ascending lt prev xs = run_ascending lt' prev xs"
  by (induction xs arbitrary: prev) auto

lemma run_descending_cong:
  "\<forall>a\<in>S. \<forall>b\<in>S. lt a b = lt' a b \<Longrightarrow> prev \<in> S \<Longrightarrow> set xs \<subseteq> S
     \<Longrightarrow> run_descending lt prev xs = run_descending lt' prev xs"
  by (induction xs arbitrary: prev) auto

lemma count_run_cong:
  assumes "\<forall>a\<in>S. \<forall>b\<in>S. lt a b = lt' a b" and "set xs \<subseteq> S"
  shows "count_run lt xs = count_run lt' xs"
proof (cases xs)
  case Nil
  then show ?thesis by simp
next
  case (Cons x ys)
  with assms(2) have x: "x \<in> S" and ys: "set ys \<subseteq> S"
    by auto
  have "lt (hd ys) x = lt' (hd ys) x" if "ys \<noteq> []"
    using that assms(1) x ys by (cases ys) auto
  with Cons show ?thesis
    using run_ascending_cong [OF assms(1) x ys] run_descending_cong [OF assms(1) x ys]
    by auto
qed

lemma bisect_cong:
  assumes "\<forall>a\<in>S. \<forall>b\<in>S. lt a b = lt' a b" and "pivot \<in> S" and "set a \<subseteq> S"
    and "r \<le> length a"
  shows "bisect lt pivot a l r = bisect lt' pivot a l r"
  using assms(4)
proof (induction "r - l" arbitrary: l r rule: less_induct)
  case less
  show ?case
  proof (cases "l < r")
    case False
    then show ?thesis
      by (simp add: bisect.simps [of _ pivot a l r])
  next
    case True
    define p where "p = l + (r - l) div 2"
    from True have p: "l \<le> p" "p < r"
      by (simp_all add: p_def)
    with less.prems have "a ! p \<in> S"
      using assms(3) by (auto simp: subset_iff)
    with assms(1,2) have same: "lt pivot (a ! p) = lt' pivot (a ! p)"
      by simp
    have left: "bisect lt pivot a l p = bisect lt' pivot a l p"
      using p less.prems by (intro less.hyps) auto
    have right: "bisect lt pivot a (p + 1) r = bisect lt' pivot a (p + 1) r"
      using p less.prems by (intro less.hyps) auto
    from True same left right show ?thesis
      by (simp add: bisect.simps [of _ pivot a l r] p_def Let_def)
  qed
qed

lemma set_binary_insert: "set (binary_insert lt a pivot) = insert pivot (set a)"
  using mset_binary_insert [of lt a pivot] by (metis set_mset_add_mset_insert set_mset_mset)

lemma binarysort_cong:
  assumes "\<forall>a\<in>S. \<forall>b\<in>S. lt a b = lt' a b"
  shows "set run \<subseteq> S \<Longrightarrow> set rest \<subseteq> S \<Longrightarrow> binarysort lt run rest = binarysort lt' run rest"
  unfolding binarysort_def
proof (induction rest arbitrary: run)
  case Nil
  then show ?case by simp
next
  case (Cons x rest)
  from Cons.prems have x: "x \<in> S"
    by simp
  have step: "binary_insert lt run x = binary_insert lt' run x"
    using bisect_cong [OF assms x Cons.prems(1), of "length run" 0]
    by (simp add: binary_insert_def)
  have "set (binary_insert lt' run x) \<subseteq> S"
    using Cons.prems x by (simp add: set_binary_insert)
  with Cons.prems have "foldl (binary_insert lt) (binary_insert lt' run x) rest =
      foldl (binary_insert lt') (binary_insert lt' run x) rest"
    by (intro Cons.IH) auto
  with step show ?case
    by simp
qed

lemma list_sort_cong:
  assumes "\<forall>a\<in>set xs. \<forall>b\<in>set xs. lt a b = lt' a b"
  shows "list_sort lt xs = list_sort lt' xs"
proof -
  obtain run rest where cr: "count_run lt' xs = (run, rest)"
    by (cases "count_run lt' xs")
  then have "set run \<union> set rest = set xs"
    using mset_count_run [OF cr] by (metis set_mset_mset set_mset_union)
  then have "binarysort lt run rest = binarysort lt' run rest"
    by (intro binarysort_cong [OF assms]) auto
  with cr show ?thesis
    using count_run_cong [OF assms subset_refl] by (simp add: list_sort_def)
qed

subsection \<open>On keys in a linear order the sort is the stable sort\<close>

lemma run_ascending_sorted:
  fixes f :: "'a \<Rightarrow> 'b::linorder"
  shows "run_ascending (\<lambda>x y. f x < f y) prev xs = (run, rest) \<Longrightarrow> sorted (map f (prev # run))"
proof (induction xs arbitrary: prev run rest)
  case Nil
  then show ?case by simp
next
  case (Cons x xs)
  show ?case
  proof (cases "f x < f prev")
    case True
    with Cons.prems show ?thesis by simp
  next
    case False
    obtain run' rest' where r: "run_ascending (\<lambda>x y. f x < f y) x xs = (run', rest')"
      by (cases "run_ascending (\<lambda>x y. f x < f y) x xs")
    with False Cons.prems have "run = x # run'"
      by simp
    moreover from r have "sorted (map f (x # run'))"
      by (rule Cons.IH)
    ultimately show ?thesis
      using False by auto
  qed
qed

lemma run_descending_sorted:
  fixes f :: "'a \<Rightarrow> 'b::linorder"
  shows "run_descending (\<lambda>x y. f x < f y) prev xs = (run, rest)
     \<Longrightarrow> sorted_wrt (\<lambda>a b. f b < f a) (prev # run)"
proof (induction xs arbitrary: prev run rest)
  case Nil
  then show ?case by simp
next
  case (Cons x xs)
  show ?case
  proof (cases "f x < f prev")
    case False
    with Cons.prems show ?thesis by simp
  next
    case True
    obtain run' rest' where r: "run_descending (\<lambda>x y. f x < f y) x xs = (run', rest')"
      by (cases "run_descending (\<lambda>x y. f x < f y) x xs")
    with True Cons.prems have "run = x # run'"
      by simp
    moreover from r have "sorted_wrt (\<lambda>a b. f b < f a) (x # run')"
      by (rule Cons.IH)
    ultimately show ?thesis
      using True by auto
  qed
qed

lemma filter_rev_distinct:
  fixes f :: "'a \<Rightarrow> 'b::linorder"
  assumes "sorted_wrt (\<lambda>a b. f b < f a) ys"
  shows "filter (\<lambda>x. f x = v) (rev ys) = filter (\<lambda>x. f x = v) ys"
  using assms
proof (induction ys)
  case Nil
  then show ?case by simp
next
  case (Cons y ys)
  then have "filter (\<lambda>x. f x = v) ys = []" if "f y = v"
    using that by (auto simp: filter_empty_conv)
  with Cons show ?case
    by auto
qed

lemma count_run_sorted:
  fixes f :: "'a \<Rightarrow> 'b::linorder"
  assumes "count_run (\<lambda>x y. f x < f y) xs = (run, rest)"
  shows "sorted (map f run) \<and> filter (\<lambda>x. f x = v) (run @ rest) = filter (\<lambda>x. f x = v) xs"
proof (cases xs)
  case Nil
  with assms show ?thesis by simp
next
  case (Cons x ys)
  show ?thesis
  proof (cases "ys \<noteq> [] \<and> f (hd ys) < f x")
    case True
    obtain run' rest' where r: "run_descending (\<lambda>x y. f x < f y) x ys = (run', rest')"
      by (cases "run_descending (\<lambda>x y. f x < f y) x ys")
    with True Cons assms have run: "run = rev (x # run')" and rest: "rest = rest'"
      by auto
    from r have d: "sorted_wrt (\<lambda>a b. f b < f a) (x # run')"
      by (rule run_descending_sorted)
    then have "sorted_wrt (\<lambda>a b. f a < f b) (rev (x # run'))"
      by (simp only: sorted_wrt_rev)
    then have "sorted_wrt (\<lambda>a b. f a \<le> f b) (rev (x # run'))"
      by (rule sorted_wrt_mono_rel [rotated]) simp
    then have s: "sorted (map f run)"
      by (simp only: run sorted_map)
    from r have "x # run' @ rest' = xs"
      using Cons by (auto dest: run_descending_append)
    then have "filter (\<lambda>x. f x = v) (run @ rest) = filter (\<lambda>x. f x = v) xs"
      using filter_rev_distinct [OF d, of v] by (simp only: run rest filter_append) auto
    with s show ?thesis by simp
  next
    case False
    obtain run' rest' where r: "run_ascending (\<lambda>x y. f x < f y) x ys = (run', rest')"
      by (cases "run_ascending (\<lambda>x y. f x < f y) x ys")
    with False Cons assms have run: "run = x # run'" and rest: "rest = rest'"
      by auto
    from r have "sorted (map f run)"
      unfolding run by (rule run_ascending_sorted)
    moreover from r have "run @ rest = xs"
      using Cons run rest by (auto dest: run_ascending_append)
    ultimately show ?thesis by simp
  qed
qed

lemma bisect_sorted:
  fixes f :: "'a \<Rightarrow> 'b::linorder"
  assumes "sorted (map f a)"
  shows "l \<le> r \<Longrightarrow> r \<le> length a
    \<Longrightarrow> \<forall>j<l. f (a ! j) \<le> f p
    \<Longrightarrow> \<forall>j. r \<le> j \<and> j < length a \<longrightarrow> f p < f (a ! j)
    \<Longrightarrow> bisect (\<lambda>x y. f x < f y) p a l r \<le> length a
        \<and> (\<forall>j < bisect (\<lambda>x y. f x < f y) p a l r. f (a ! j) \<le> f p)
        \<and> (\<forall>j. bisect (\<lambda>x y. f x < f y) p a l r \<le> j \<and> j < length a \<longrightarrow> f p < f (a ! j))"
proof (induction "r - l" arbitrary: l r rule: less_induct)
  case less
  have mono: "f (a ! i) \<le> f (a ! j)" if "i \<le> j" "j < length a" for i j
    using sorted_nth_mono [OF assms, of i j] that by simp
  show ?case
  proof (cases "l < r")
    case False
    with less.prems have "l = r"
      by simp
    with less.prems show ?thesis
      by (simp add: bisect.simps [of _ p a r r])
  next
    case True
    define m where "m = l + (r - l) div 2"
    from True have m: "l \<le> m" "m < r"
      by (simp_all add: m_def)
    show ?thesis
    proof (cases "f p < f (a ! m)")
      case True
      have "\<forall>j. m \<le> j \<and> j < length a \<longrightarrow> f p < f (a ! j)"
        using True mono by (meson less_le_trans)
      with m less.prems have
        "bisect (\<lambda>x y. f x < f y) p a l m \<le> length a
        \<and> (\<forall>j < bisect (\<lambda>x y. f x < f y) p a l m. f (a ! j) \<le> f p)
        \<and> (\<forall>j. bisect (\<lambda>x y. f x < f y) p a l m \<le> j \<and> j < length a \<longrightarrow> f p < f (a ! j))"
        by (intro less.hyps) auto
      moreover have "bisect (\<lambda>x y. f x < f y) p a l r = bisect (\<lambda>x y. f x < f y) p a l m"
        using \<open>l < r\<close> True by (simp add: bisect.simps [of _ p a l r] m_def Let_def)
      ultimately show ?thesis by simp
    next
      case False
      then have le: "f (a ! m) \<le> f p"
        by simp
      have "\<forall>j < m + 1. f (a ! j) \<le> f p"
      proof (intro allI impI)
        fix j assume "j < m + 1"
        then have "f (a ! j) \<le> f (a ! m)"
          using m less.prems by (intro mono) auto
        with le show "f (a ! j) \<le> f p" by simp
      qed
      with m less.prems have
        "bisect (\<lambda>x y. f x < f y) p a (m + 1) r \<le> length a
        \<and> (\<forall>j < bisect (\<lambda>x y. f x < f y) p a (m + 1) r. f (a ! j) \<le> f p)
        \<and> (\<forall>j. bisect (\<lambda>x y. f x < f y) p a (m + 1) r \<le> j \<and> j < length a \<longrightarrow> f p < f (a ! j))"
        by (intro less.hyps) auto
      moreover have "bisect (\<lambda>x y. f x < f y) p a l r = bisect (\<lambda>x y. f x < f y) p a (m + 1) r"
        using \<open>l < r\<close> False by (simp add: bisect.simps [of _ p a l r] m_def Let_def)
      ultimately show ?thesis by simp
    qed
  qed
qed

lemma binary_insert_sorted:
  fixes f :: "'a \<Rightarrow> 'b::linorder"
  assumes "sorted (map f a)"
  shows "sorted (map f (binary_insert (\<lambda>x y. f x < f y) a p))
    \<and> filter (\<lambda>x. f x = v) (binary_insert (\<lambda>x y. f x < f y) a p) = filter (\<lambda>x. f x = v) (a @ [p])"
proof -
  define i where "i = bisect (\<lambda>x y. f x < f y) p a 0 (length a)"
  have "i \<le> length a \<and> (\<forall>j<i. f (a ! j) \<le> f p)
      \<and> (\<forall>j. i \<le> j \<and> j < length a \<longrightarrow> f p < f (a ! j))"
    unfolding i_def by (rule bisect_sorted [OF assms]) auto
  then have i: "i \<le> length a" "\<forall>j<i. f (a ! j) \<le> f p"
    "\<forall>j. i \<le> j \<and> j < length a \<longrightarrow> f p < f (a ! j)"
    by blast+
  have low: "f x \<le> f p" if "x \<in> set (take i a)" for x
    using that i(1,2) by (auto simp: in_set_conv_nth)
  have high: "f p < f x" if "x \<in> set (drop i a)" for x
    using that i(1,3) by (auto simp: in_set_conv_nth)
  have ins: "binary_insert (\<lambda>x y. f x < f y) a p = take i a @ p # drop i a"
    by (simp add: binary_insert_def i_def Let_def)
  have parts: "sorted (map f (take i a))" "sorted (map f (drop i a))"
    using sorted_wrt_take [OF assms, of i] sorted_wrt_drop [OF assms, of i]
    by (simp_all only: take_map drop_map)
  have cross: "f x \<le> f y" if "x \<in> set (take i a)" "y \<in> set (drop i a)" for x y
    using low [OF that(1)] high [OF that(2)] by simp
  have low': "\<forall>x \<in> set (take i a). f x \<le> f p"
    using low by blast
  have high': "\<forall>y \<in> set (drop i a). f p \<le> f y"
    using high by (blast intro: less_imp_le)
  have cross': "\<forall>x \<in> set (take i a). \<forall>y \<in> set (drop i a). f x \<le> f y"
    using cross by blast
  have s: "sorted (map f (take i a @ p # drop i a))"
    using parts low' high' cross' by (simp add: sorted_append)
  have none: "filter (\<lambda>x. f x = v) (drop i a) = []" if "f p = v"
    unfolding filter_empty_conv using that high by fastforce
  have "filter (\<lambda>x. f x = v) (take i a @ p # drop i a) =
      filter (\<lambda>x. f x = v) (take i a) @ filter (\<lambda>x. f x = v) (drop i a) @ filter (\<lambda>x. f x = v) [p]"
  proof (cases "f p = v")
    case True
    with none show ?thesis by simp
  next
    case False
    then show ?thesis by simp
  qed
  also have "\<dots> = filter (\<lambda>x. f x = v) ((take i a @ drop i a) @ [p])"
    by (simp only: filter_append append_assoc)
  also have "(take i a @ drop i a) @ [p] = a @ [p]"
    by (simp only: append_take_drop_id)
  finally have "filter (\<lambda>x. f x = v) (take i a @ p # drop i a) = filter (\<lambda>x. f x = v) (a @ [p])" .
  with s show ?thesis
    by (simp only: ins)
qed

lemma binarysort_sorted:
  fixes f :: "'a \<Rightarrow> 'b::linorder"
  shows "sorted (map f run)
     \<Longrightarrow> sorted (map f (binarysort (\<lambda>x y. f x < f y) run rest))
       \<and> filter (\<lambda>x. f x = v) (binarysort (\<lambda>x y. f x < f y) run rest)
           = filter (\<lambda>x. f x = v) (run @ rest)"
  unfolding binarysort_def
proof (induction rest arbitrary: run)
  case Nil
  then show ?case by simp
next
  case (Cons x rest)
  note step = binary_insert_sorted [OF Cons.prems, of x v]
  from step Cons.IH [of "binary_insert (\<lambda>x y. f x < f y) run x"] show ?case
    by simp
qed

lemma list_sort_sort_key:
  fixes f :: "'a \<Rightarrow> 'b::linorder"
  shows "list_sort (\<lambda>x y. f x < f y) xs = sort_key f xs"
proof -
  have props: "sorted (map f (list_sort (\<lambda>x y. f x < f y) xs))
      \<and> filter (\<lambda>x. f x = v) (list_sort (\<lambda>x y. f x < f y) xs) = filter (\<lambda>x. f x = v) xs" for v
  proof (cases "length xs < 2")
    case True
    then have "sorted (map f xs)"
      by (cases xs) (auto simp: less_Suc_eq)
    with True show ?thesis
      by (simp add: list_sort_def)
  next
    case False
    obtain run rest where cr: "count_run (\<lambda>x y. f x < f y) xs = (run, rest)"
      by (cases "count_run (\<lambda>x y. f x < f y) xs")
    from count_run_sorted [OF cr, of v] binarysort_sorted [of f run rest v] False cr
    show ?thesis
      by (simp add: list_sort_def)
  qed
  show ?thesis
  proof (rule properties_for_sort_key [symmetric])
    show "mset (list_sort (\<lambda>x y. f x < f y) xs) = mset xs"
      by (rule mset_list_sort)
    show "sorted (map f (list_sort (\<lambda>x y. f x < f y) xs))"
      using props by simp
    show "filter (\<lambda>x. f k = f x) (list_sort (\<lambda>x y. f x < f y) xs) = filter (\<lambda>x. f k = f x) xs" for k
      using props [of "f k"] by (simp add: eq_commute)
  qed
qed

subsection \<open>The ranking sort on keys without NaN\<close>

lemma sort_reverse_sort_key:
  assumes "\<forall>x \<in> set xs. k x \<noteq> NaN"
  shows "sort_reverse k xs = rev (sort_key (\<lambda>x. rank (k x)) (rev xs))"
proof -
  from assms have "\<forall>a \<in> set (rev xs). \<forall>b \<in> set (rev xs). (k a < k b) = (rank (k a) < rank (k b))"
    by (simp add: less_rank)
  then have "list_sort (\<lambda>a b. k a < k b) (rev xs) = list_sort (\<lambda>a b. rank (k a) < rank (k b)) (rev xs)"
    by (rule list_sort_cong)
  then show ?thesis
    by (simp add: sort_reverse_def list_sort_sort_key)
qed

lemma sort_reverse_descending:
  assumes "\<forall>x \<in> set xs. k x \<noteq> NaN"
  shows "sorted_wrt (\<lambda>a b. k a \<ge> k b) (sort_reverse k xs)"
proof -
  have "sorted (map (\<lambda>x. rank (k x)) (sort_key (\<lambda>x. rank (k x)) (rev xs)))"
    by (rule sorted_sort_key)
  then have "sorted_wrt (\<lambda>a b. rank (k a) \<le> rank (k b)) (sort_key (\<lambda>x. rank (k x)) (rev xs))"
    by (simp only: sorted_map)
  then have "sorted_wrt (\<lambda>a b. rank (k b) \<le> rank (k a)) (sort_reverse k xs)"
    by (simp only: sort_reverse_sort_key [OF assms] sorted_wrt_rev)
  then show ?thesis
  proof (rule sorted_wrt_mono_rel [rotated])
    fix a b
    assume "a \<in> set (sort_reverse k xs)" and "b \<in> set (sort_reverse k xs)"
      and "rank (k b) \<le> rank (k a)"
    with assms show "k b \<le> k a"
      by (simp add: set_sort_reverse less_eq_rank)
  qed
qed

lemma sort_reverse_stable:
  assumes "\<forall>x \<in> set xs. k x \<noteq> NaN"
  shows "filter (\<lambda>y. k y = m) (sort_reverse k xs) = filter (\<lambda>y. k y = m) xs"
proof -
  have "filter (\<lambda>y. rank (k y) = rank m) (sort_key (\<lambda>x. rank (k x)) (rev xs))
      = filter (\<lambda>y. rank (k y) = rank m) (rev xs)"
    by (rule sort_key_stable)
  then have "filter (\<lambda>y. k y = m) (sort_key (\<lambda>x. rank (k x)) (rev xs)) = filter (\<lambda>y. k y = m) (rev xs)"
    by (simp only: rank_eq)
  then show ?thesis
    by (simp add: sort_reverse_sort_key [OF assms] rev_filter [symmetric])
qed

subsection \<open>The loops as maps\<close>

lemma foldl_history_step:
  "foldl (history_step fl env fp) acc cs = acc @ concat (map (history_step fl env fp []) cs)"
proof (induction cs arbitrary: acc)
  case Nil
  then show ?case by simp
next
  case (Cons c cs)
  have "history_step fl env fp acc c = acc @ history_step fl env fp [] c"
    by (simp add: history_step_def Let_def split: option.splits)
  with Cons show ?case by simp
qed

lemma history_step_empty:
  "(history_step fl env fp [] c = []) =
     (fst (parse_price_file fl (get_file_content env (c_hash c) fp)) = None)"
  by (simp add: history_step_def Let_def split: option.splits)

lemma get_price_history_empty:
  "(get_price_history fl env name commits = []) =
     (\<forall>c \<in> set commits.
        fst (parse_price_file fl (get_file_content env (c_hash c) (name @ ''.txt''))) = None)"
  by (simp add: get_price_history_def foldl_history_step history_step_empty)

subsection \<open>The field parser\<close>



text \<open>
  A line with the prefix \<^verbatim>\<open>Price:\<close> and no further occurrence of it gives the number
  that follows the prefix; a line with neither prefix changes nothing.
\<close>

lemma replace_prefix:
  assumes "startswith s old" and "old \<noteq> []"
  shows "replace s old new = new @ replace (drop (length old) s) old new"
proof -
  from assms have "s \<noteq> []"
    by (auto simp: startswith_def)
  with assms show ?thesis
    by (subst replace.simps) simp
qed

lemma parse_line_price:
  assumes "startswith line ''Price:''"
    and "replace (drop (length ''Price:'') line) ''Price:'' [] = drop (length ''Price:'') line"
    and "fl (strip (drop (length ''Price:'') line)) = Some v"
  shows "parse_line fl st line = (Some v, snd st)"
  using assms replace_prefix [of line "''Price:''" "[]"]
  by (simp add: parse_line_def)

lemma parse_line_other:
  assumes "\<not> startswith line ''Price:''" and "\<not> startswith line ''Updated:''"
  shows "parse_line fl st line = st"
  using assms by (simp add: parse_line_def)

subsection \<open>The exit status\<close>



subsection \<open>The two pipelines\<close>

lemma foldl_diff_step:
  "foldl (diff_step fl env cur prev) acc fs = acc @ concat (map (diff_step fl env cur prev []) fs)"
proof (induction fs arbitrary: acc)
  case Nil
  then show ?case by simp
next
  case (Cons f fs)
  have "diff_step fl env cur prev acc f = acc @ diff_step fl env cur prev [] f"
    by (simp add: diff_step_def Let_def split: option.splits)
  with Cons show ?case by simp
qed

lemma diff_step_member:
  assumes "r \<in> set (diff_step fl env cur prev [] f)"
  shows "change_record (ticker_of f) (parse_price_file fl (get_file_content env cur f))
           (parse_price_file fl (get_file_content env prev f)) = Some r"
  using assms by (simp add: diff_step_def Let_def split: option.splits)

lemma change_record_ticker: "change_record name cur prev = Some r \<Longrightarrow> ticker r = name"
  by (auto simp: change_record_def split: option.splits)

lemma main_txt_not_listed: "''main.txt'' \<notin> set (get_all_stock_files env)"
  by (simp add: get_all_stock_files_def)

lemma chart_step_fst:
  "fst (chart_step fl env cs st t) = fst st @ fst (chart_step fl env cs ([], []) t)"
  by (simp add: chart_step_def Let_def split: option.splits)

lemma foldl_chart_step_fst:
  "fst (foldl (chart_step fl env cs) st ts) =
     fst st @ concat (map (\<lambda>t. fst (chart_step fl env cs ([], []) t)) ts)"
proof (induction ts arbitrary: st)
  case Nil
  then show ?case by simp
next
  case (Cons t ts)
  show ?case
    by (simp add: Cons.IH [of "chart_step fl env cs st t"] chart_step_fst [of fl env cs st t])
qed

lemma chart_step_member:
  assumes "x \<in> set (fst (chart_step fl env cs ([], []) t))"
  shows "sd_ticker x = t \<and> sd_history x = get_price_history fl env t cs
         \<and> calculate_statistics (get_price_history fl env t cs) = Some (sd_stats x)"
  using assms by (auto simp: chart_step_def Let_def split: option.splits)

lemma chart_step_candidate:
  assumes "calculate_statistics (get_price_history fl env t cs) = Some s"
  shows "\<lparr>sd_ticker = t, sd_stats = s, sd_history = get_price_history fl env t cs\<rparr>
           \<in> set (fst (chart_step fl env cs ([], []) t))"
  using assms by (simp add: chart_step_def Let_def)

lemma map_of_chart_step:
  "map_of (snd (chart_step fl env cs st t)) k =
     (if k = t \<and> calculate_statistics (get_price_history fl env t cs) \<noteq> None
      then Some (chart_of (get_price_history fl env t cs))
      else map_of (snd st) k)"
  by (auto simp: chart_step_def Let_def update_conv' split: option.splits)

lemma map_of_foldl_chart_step:
  "map_of (snd (foldl (chart_step fl env cs) st ts)) k =
     (if k \<in> set ts \<and> calculate_statistics (get_price_history fl env k cs) \<noteq> None
      then Some (chart_of (get_price_history fl env k cs))
      else map_of (snd st) k)"
proof (induction ts arbitrary: st)
  case Nil
  then show ?case by simp
next
  case (Cons t ts)
  show ?case
    by (auto simp: Cons.IH [of "chart_step fl env cs st t"] map_of_chart_step)
qed

lemma write_diff_report_sel:
  "diff_total (write_diff_report cs) = length cs"
  "diff_gainers (write_diff_report cs) = filter (\<lambda>c. percent_change c > 0) cs"
  "diff_losers (write_diff_report cs) = filter (\<lambda>c. percent_change c < 0) cs"
  "diff_unchanged (write_diff_report cs) = filter (\<lambda>c. percent_change c = 0) cs"
  "diff_changes (write_diff_report cs) = cs"
  by (simp_all add: write_diff_report_def)

lemma artifact_main_diff:
  assumes "artifact (main_diff fl env) = Some r"
  shows "\<exists>cur prev. get_last_two_commits env = (Some cur, Some prev) \<and> cur \<noteq> [] \<and> prev \<noteq> []
           \<and> rev_parse_ok env \<and> get_all_stock_files env \<noteq> []
           \<and> r = write_diff_report (sort_reverse (\<lambda>x. \<bar>percent_change x\<bar>)
                   (foldl (diff_step fl env cur prev) [] (get_all_stock_files env)))
           \<and> console (main_diff fl env) =
               [Comparing_commits, Current_commit (take 8 cur), Previous_commit (take 8 prev),
                Diff_report_generated, Total_stocks_analyzed (diff_total r),
                Gainers_losers_unchanged (length (diff_gainers r)) (length (diff_losers r))
                  (length (diff_unchanged r))]"
proof -
  from assms have ok: "rev_parse_ok env"
    by (auto simp: main_diff_def split: if_splits)
  with assms have run: "main_diff fl env =
      \<lparr>exit_status = 0, console = fst (generate_diff_report fl env),
       artifact = snd (generate_diff_report fl env)\<rparr>"
    by (simp add: main_diff_def split: prod.splits)
  with assms have written: "snd (generate_diff_report fl env) = Some r"
    by simp
  obtain a b where ab: "get_last_two_commits env = (a, b)"
    by (cases "get_last_two_commits env")
  from written ab obtain cur prev where cp: "a = Some cur" "b = Some prev"
    by (cases a; cases b) (auto simp: generate_diff_report_def)
  from written ab cp have ne: "cur \<noteq> []" "prev \<noteq> []"
    by (auto simp: generate_diff_report_def split: if_splits)
  from written ab cp ne have files: "get_all_stock_files env \<noteq> []"
    by (auto simp: generate_diff_report_def Let_def split: if_splits)
  from ab cp ne files have gen: "generate_diff_report fl env =
      ([Comparing_commits, Current_commit (take 8 cur), Previous_commit (take 8 prev),
        Diff_report_generated,
        Total_stocks_analyzed (length (sort_reverse (\<lambda>x. \<bar>percent_change x\<bar>)
           (foldl (diff_step fl env cur prev) [] (get_all_stock_files env)))),
        Gainers_losers_unchanged
          (length (diff_gainers (write_diff_report (sort_reverse (\<lambda>x. \<bar>percent_change x\<bar>)
             (foldl (diff_step fl env cur prev) [] (get_all_stock_files env))))))
          (length (diff_losers (write_diff_report (sort_reverse (\<lambda>x. \<bar>percent_change x\<bar>)
             (foldl (diff_step fl env cur prev) [] (get_all_stock_files env))))))
          (length (diff_unchanged (write_diff_report (sort_reverse (\<lambda>x. \<bar>percent_change x\<bar>)
             (foldl (diff_step fl env cur prev) [] (get_all_stock_files env))))))],
       Some (write_diff_report (sort_reverse (\<lambda>x. \<bar>percent_change x\<bar>)
             (foldl (diff_step fl env cur prev) [] (get_all_stock_files env)))))"
    by (simp add: generate_diff_report_def Let_def)
  with written have r: "r = write_diff_report (sort_reverse (\<lambda>x. \<bar>percent_change x\<bar>)
             (foldl (diff_step fl env cur prev) [] (get_all_stock_files env)))"
    by simp
  from run gen r have "console (main_diff fl env) =
               [Comparing_commits, Current_commit (take 8 cur), Previous_commit (take 8 prev),
                Diff_report_generated, Total_stocks_analyzed (diff_total r),
                Gainers_losers_unchanged (length (diff_gainers r)) (length (diff_losers r))
                  (length (diff_unchanged r))]"
    by (simp add: write_diff_report_sel)
  with ab cp ne ok files r show ?thesis
    by blast
qed

lemma artifact_main_report:
  assumes "artifact (main_report fl env) = Some h"
  shows "\<exists>commits. get_commit_history env = Inr commits \<and> commits \<noteq> []
           \<and> get_all_stock_files env \<noteq> []
           \<and> rep_gallery h = take 12 (sort_reverse (\<lambda>x. \<bar>st_percent_change (sd_stats x)\<bar>)
               (fst (foldl (chart_step fl env commits) ([], [])
                  (map ticker_of (take 20 (get_all_stock_files env))))))
           \<and> rep_table h = take 20 (sort_reverse (\<lambda>x. \<bar>st_percent_change (sd_stats x)\<bar>)
               (fst (foldl (chart_step fl env commits) ([], [])
                  (map ticker_of (take 20 (get_all_stock_files env))))))
           \<and> rep_chart_data h = snd (foldl (chart_step fl env commits) ([], [])
                  (map ticker_of (take 20 (get_all_stock_files env))))
           \<and> console (main_report fl env) =
               [Generating_report,
                Processing_stocks (min 20 (length (get_all_stock_files env))),
                Html_report_generated,
                Charts_created (length (rep_gallery h)),
                Table_includes (length (rep_table h))]"
proof -
  obtain out res where gen: "generate_html_report fl env = (out, res)"
    by (cases "generate_html_report fl env")
  from assms gen have res: "res = Inr (Some h)" and out: "console (main_report fl env) = out"
    by (auto simp: main_report_def split: sum.splits)
  from gen res obtain commits where hist: "get_commit_history env = Inr commits"
    by (cases "get_commit_history env") (auto simp: generate_html_report_def)
  from gen res hist have ne: "commits \<noteq> []"
    by (auto simp: generate_html_report_def split: if_splits)
  from gen res hist ne have files: "get_all_stock_files env \<noteq> []"
    by (auto simp: generate_html_report_def Let_def split: if_splits)
  from gen res hist ne files have
    "rep_gallery h = take 12 (sort_reverse (\<lambda>x. \<bar>st_percent_change (sd_stats x)\<bar>)
               (fst (foldl (chart_step fl env commits) ([], [])
                  (map ticker_of (take 20 (get_all_stock_files env))))))"
    "rep_table h = take 20 (sort_reverse (\<lambda>x. \<bar>st_percent_change (sd_stats x)\<bar>)
               (fst (foldl (chart_step fl env commits) ([], [])
                  (map ticker_of (take 20 (get_all_stock_files env))))))"
    "rep_chart_data h = snd (foldl (chart_step fl env commits) ([], [])
                  (map ticker_of (take 20 (get_all_stock_files env))))"
    "out = [Generating_report,
                Processing_stocks (min 20 (length (get_all_stock_files env))),
                Html_report_generated,
                Charts_created (length (rep_gallery h)),
                Table_includes (length (rep_table h))]"
    by (auto simp: generate_html_report_def Let_def min_def)
  with hist ne files out show ?thesis
    by blast
qed

lemma chart_data_keys:
  assumes "k \<in> fst ` set (snd (foldl (chart_step fl env cs) ([], []) ts))"
  shows "k \<in> set ts"
proof -
  from assms have "map_of (snd (foldl (chart_step fl env cs) ([], []) ts)) k \<noteq> None"
    by (simp add: map_of_eq_None_iff)
  then show ?thesis
    by (simp add: map_of_foldl_chart_step split: if_splits)
qed

lemma no_artifact_main_diff:
  "(artifact (main_diff fl env) = None) =
     (\<not> rev_parse_ok env
      \<or> length (split (strip (log_hashes env)) CHR 0x0A) < 2
      \<or> split (strip (log_hashes env)) CHR 0x0A ! 0 = []
      \<or> split (strip (log_hashes env)) CHR 0x0A ! 1 = []
      \<or> get_all_stock_files env = [])"
  by (simp add: main_diff_def generate_diff_report_def get_last_two_commits_def Let_def
      split: prod.splits)

lemma no_artifact_main_report:
  assumes "get_commit_history env = Inr commits"
  shows "(artifact (main_report fl env) = None) = (commits = [] \<or> get_all_stock_files env = [])"
  using assms by (simp add: main_report_def generate_html_report_def Let_def)

lemma sorted_take_drop:
  assumes "sorted_wrt P xs" and "x \<in> set (take n xs)" and "y \<in> set (drop n xs)"
  shows "P x y"
proof -
  from assms(1) have "sorted_wrt P (take n xs @ drop n xs)"
    by simp
  with assms(2,3) show ?thesis
    unfolding sorted_wrt_append by blast
qed

lemma top_of_sorted:
  assumes "sorted_wrt P xs" and "y \<in> set xs"
  shows "y \<in> set (take n xs) \<or> (length (take n xs) = n \<and> (\<forall>x \<in> set (take n xs). P x y))"
proof (cases "y \<in> set (take n xs)")
  case True
  then show ?thesis by simp
next
  case False
  have "set xs = set (take n xs) \<union> set (drop n xs)"
    by (metis append_take_drop_id set_append)
  with False assms(2) have y: "y \<in> set (drop n xs)"
    by blast
  then have "drop n xs \<noteq> []"
    by auto
  then have "length (take n xs) = n"
    by simp
  moreover have "\<forall>x \<in> set (take n xs). P x y"
    using sorted_take_drop [OF assms(1) _ y] by blast
  ultimately show ?thesis by simp
qed

text \<open>
  The diff pipeline makes each change record from the contents of a listed path, which
  is never \<^verbatim>\<open>main.txt\<close>.
\<close>

lemma diff_changes_listed:
  assumes "artifact (main_diff fl env) = Some r" and ch: "ch \<in> set (diff_changes r)"
  shows "\<exists>f \<in> set (get_all_stock_files env). \<exists>cur prev.
            f \<noteq> ''main.txt'' \<and> ticker ch = ticker_of f
            \<and> get_last_two_commits env = (Some cur, Some prev)
            \<and> change_record (ticker_of f) (parse_price_file fl (get_file_content env cur f))
                 (parse_price_file fl (get_file_content env prev f)) = Some ch"
proof -
  from assms(1) obtain cur prev where two: "get_last_two_commits env = (Some cur, Some prev)"
    and r: "r = write_diff_report (sort_reverse (\<lambda>x. \<bar>percent_change x\<bar>)
                   (foldl (diff_step fl env cur prev) [] (get_all_stock_files env)))"
    using artifact_main_diff [of fl env r] by blast
  from ch r have "ch \<in> set (foldl (diff_step fl env cur prev) [] (get_all_stock_files env))"
    by (simp add: write_diff_report_sel set_sort_reverse)
  then obtain f where f: "f \<in> set (get_all_stock_files env)"
    and "ch \<in> set (diff_step fl env cur prev [] f)"
    by (auto simp: foldl_diff_step)
  then have rec: "change_record (ticker_of f) (parse_price_file fl (get_file_content env cur f))
                 (parse_price_file fl (get_file_content env prev f)) = Some ch"
    by (simp add: diff_step_member)
  then have "ticker ch = ticker_of f"
    by (rule change_record_ticker)
  moreover from f have "f \<noteq> ''main.txt''"
    using main_txt_not_listed [of env] by auto
  ultimately show ?thesis
    using f two rec by blast
qed

subsection \<open>The claims\<close>

text \<open>
  C1. The comparison of two optional prices gives no record exactly when the previous or
  the current price is absent. When both are present the absolute change is current minus
  previous, and the percent change is 0 for a previous price of 0 and
  (current - previous) / previous * 100 otherwise.
\<close>

theorem change_record_spec:
  "(change_record name (c, ct) (p, pt) = None) = (p = None \<or> c = None)
   \<and> map_option price_change (change_record name (Some x, ct) (Some y, pt)) = Some (x - y)
   \<and> map_option percent_change (change_record name (Some x, ct) (Some y, pt))
       = Some (if y = 0 then 0 else (x - y) / y * 100)"
  by (simp add: change_record_def calculate_percentage_change_def split: option.splits)

theorem change_record_spec_witness:
  "change_record ''BBB'' (Some 5, None) (None, None) = None
   \<and> map_option price_change (change_record ''AAA'' (Some 110, None) (Some 100, None)) = Some 10
   \<and> map_option percent_change (change_record ''AAA'' (Some 110, None) (Some 100, None)) = Some 10
   \<and> map_option percent_change (change_record ''BBB'' (Some 5, None) (Some 0, None)) = Some 0"
  using change_record_spec [of "''BBB''" "Some 5" None None None 5 0]
    change_record_spec [of "''AAA''" None None None None 110 100]
  by (simp add: pyfloat_arith)

text \<open>
  C2, as the code has it. The statistics of a ticker are absent exactly when no sampled
  revision gives a price, that is when the history, which keeps the observations with a
  price, is empty. On a history of one entry with a finite price, previous equals
  current and the percent change is 0.
\<close>

theorem calculate_statistics_absent:
  "(calculate_statistics (get_price_history fl env name commits) = None) =
     (\<forall>c \<in> set commits.
        fst (parse_price_file fl (get_file_content env (c_hash c) (name @ ''.txt''))) = None)
   \<and> (calculate_statistics h = None) = (h = [])
   \<and> (\<exists>s. calculate_statistics [\<lparr>h_timestamp = t, h_price = Fin a\<rparr>] = Some s
          \<and> st_previous s = st_current s \<and> st_percent_change s = 0)"
  by (simp add: calculate_statistics_def Let_def get_price_history_empty pyfloat_arith)

theorem calculate_statistics_absent_witness:
  "calculate_statistics (get_price_history float_digits repo_two ''CCC''
      [\<lparr>c_hash = ''c1'', c_timestamp = ''2024-01-01 10:00:00 +0000''\<rparr>]) = None
   \<and> calculate_statistics (get_price_history float_digits repo_two ''CCC''
      [\<lparr>c_hash = ''c2'', c_timestamp = ''2024-01-02 10:00:00 +0000''\<rparr>]) \<noteq> None
   \<and> (\<exists>s. calculate_statistics [\<lparr>h_timestamp = ''2024-01-02 10:00:00 +0000'', h_price = Fin 7\<rparr>] = Some s
          \<and> st_previous s = st_current s \<and> st_percent_change s = 0)"
proof -
  have a: "fst (parse_price_file float_digits (get_file_content repo_two ''c1'' (''CCC'' @ ''.txt''))) = None"
    by code_simp
  have b: "fst (parse_price_file float_digits (get_file_content repo_two ''c2'' (''CCC'' @ ''.txt''))) \<noteq> None"
    by code_simp
  show ?thesis
    using a b
      calculate_statistics_absent [of float_digits repo_two "''CCC''"
        "[\<lparr>c_hash = ''c1'', c_timestamp = ''2024-01-01 10:00:00 +0000''\<rparr>]" "[]"
        "''2024-01-02 10:00:00 +0000''" 7]
      calculate_statistics_absent [of float_digits repo_two "''CCC''"
        "[\<lparr>c_hash = ''c2'', c_timestamp = ''2024-01-02 10:00:00 +0000''\<rparr>]" "[]"
        "''2024-01-02 10:00:00 +0000''" 7]
    by simp
qed

text \<open>
  C2, as the claim states it, fails on a file with the line \<^verbatim>\<open>Price: inf\<close>: the history
  has one entry, with an infinite price, and the percent change of its statistics is
  NaN, not 0.
\<close>

theorem calculate_statistics_counterexample:
  "get_price_history float_digits repo_inf ''AAA''
      [\<lparr>c_hash = ''c1'', c_timestamp = ''2024-01-01 10:00:00 +0000''\<rparr>]
     = [\<lparr>h_timestamp = ''2024-01-01 10:00:00 +0000'', h_price = PInf\<rparr>]
   \<and> map_option st_percent_change
        (calculate_statistics [\<lparr>h_timestamp = ''2024-01-01 10:00:00 +0000'', h_price = PInf\<rparr>])
       = Some NaN"
  by code_simp

text \<open>
  C3, as the code has it. The diff run writes no report exactly when it is not in a work
  tree, when the log lists fewer than two revisions or an empty hash, or when no ticker
  file is discovered. The report run, once the log is read, writes no report exactly when
  the log lists no revision or no ticker file is discovered; one revision is enough for
  it. A run that writes its report prints the counts of that report. The exit status is
  not part of the statement.
\<close>

theorem early_stop:
  "(artifact (main_diff fl env) = None) =
     (\<not> rev_parse_ok env
      \<or> length (split (strip (log_hashes env)) CHR 0x0A) < 2
      \<or> split (strip (log_hashes env)) CHR 0x0A ! 0 = []
      \<or> split (strip (log_hashes env)) CHR 0x0A ! 1 = []
      \<or> get_all_stock_files env = [])
   \<and> (artifact (main_diff fl env) = Some d \<longrightarrow>
        (\<exists>cur prev. console (main_diff fl env) =
           [Comparing_commits, Current_commit cur, Previous_commit prev,
            Diff_report_generated, Total_stocks_analyzed (diff_total d),
            Gainers_losers_unchanged (length (diff_gainers d)) (length (diff_losers d))
              (length (diff_unchanged d))]))
   \<and> (get_commit_history env = Inr commits \<longrightarrow>
        (artifact (main_report fl env) = None) = (commits = [] \<or> get_all_stock_files env = []))
   \<and> (artifact (main_report fl env) = Some h \<longrightarrow>
        console (main_report fl env) =
          [Generating_report,
           Processing_stocks (min 20 (length (get_all_stock_files env))),
           Html_report_generated,
           Charts_created (length (rep_gallery h)),
           Table_includes (length (rep_table h))])"
proof (intro conjI impI)
  show "(artifact (main_diff fl env) = None) =
     (\<not> rev_parse_ok env
      \<or> length (split (strip (log_hashes env)) CHR 0x0A) < 2
      \<or> split (strip (log_hashes env)) CHR 0x0A ! 0 = []
      \<or> split (strip (log_hashes env)) CHR 0x0A ! 1 = []
      \<or> get_all_stock_files env = [])"
    by (rule no_artifact_main_diff)
next
  assume "artifact (main_diff fl env) = Some d"
  then show "\<exists>cur prev. console (main_diff fl env) =
           [Comparing_commits, Current_commit cur, Previous_commit prev,
            Diff_report_generated, Total_stocks_analyzed (diff_total d),
            Gainers_losers_unchanged (length (diff_gainers d)) (length (diff_losers d))
              (length (diff_unchanged d))]"
    using artifact_main_diff [of fl env d] by blast
next
  assume "get_commit_history env = Inr commits"
  then show "(artifact (main_report fl env) = None) = (commits = [] \<or> get_all_stock_files env = [])"
    by (rule no_artifact_main_report)
next
  assume "artifact (main_report fl env) = Some h"
  then show "console (main_report fl env) =
          [Generating_report,
           Processing_stocks (min 20 (length (get_all_stock_files env))),
           Html_report_generated,
           Charts_created (length (rep_gallery h)),
           Table_includes (length (rep_table h))]"
    using artifact_main_report [of fl env h] by blast
qed

theorem early_stop_witness:
  "artifact (main_diff float_digits repo_one) = None
   \<and> artifact (main_report float_digits repo_none) = None
   \<and> (\<exists>d. artifact (main_diff float_digits repo_two) = Some d
        \<and> (\<exists>cur prev. console (main_diff float_digits repo_two) =
             [Comparing_commits, Current_commit cur, Previous_commit prev,
              Diff_report_generated, Total_stocks_analyzed (diff_total d),
              Gainers_losers_unchanged (length (diff_gainers d)) (length (diff_losers d))
                (length (diff_unchanged d))]))
   \<and> (\<exists>h. artifact (main_report float_digits repo_two) = Some h
        \<and> console (main_report float_digits repo_two) =
            [Generating_report,
             Processing_stocks (min 20 (length (get_all_stock_files repo_two))),
             Html_report_generated,
             Charts_created (length (rep_gallery h)),
             Table_includes (length (rep_table h))])"
proof -
  have few: "length (split (strip (log_hashes repo_one)) CHR 0x0A) < 2"
    by code_simp
  have none: "get_commit_history repo_none = Inr []"
    by code_simp
  have "artifact (main_diff float_digits repo_two) \<noteq> None"
    by code_simp
  then obtain d where d: "artifact (main_diff float_digits repo_two) = Some d"
    by (cases "artifact (main_diff float_digits repo_two)") simp_all
  have "artifact (main_report float_digits repo_two) \<noteq> None"
    by code_simp
  then obtain h where h: "artifact (main_report float_digits repo_two) = Some h"
    by (cases "artifact (main_report float_digits repo_two)") simp_all
  have one: "artifact (main_diff float_digits repo_one) = None"
    using few early_stop [of float_digits repo_one d "[]" h, THEN conjunct1] by simp
  have zero: "artifact (main_report float_digits repo_none) = None"
    using early_stop [of float_digits repo_none d "[]" h,
        THEN conjunct2, THEN conjunct2, THEN conjunct1, THEN mp, OF none]
    by simp
  note two = early_stop [of float_digits repo_two d "[]" h]
  have diff: "\<exists>d. artifact (main_diff float_digits repo_two) = Some d
        \<and> (\<exists>cur prev. console (main_diff float_digits repo_two) =
             [Comparing_commits, Current_commit cur, Previous_commit prev,
              Diff_report_generated, Total_stocks_analyzed (diff_total d),
              Gainers_losers_unchanged (length (diff_gainers d)) (length (diff_losers d))
                (length (diff_unchanged d))])"
    by (rule exI [of _ d])
      (rule conjI [OF d two [THEN conjunct2, THEN conjunct1, THEN mp, OF d]])
  have report: "\<exists>h. artifact (main_report float_digits repo_two) = Some h
        \<and> console (main_report float_digits repo_two) =
            [Generating_report,
             Processing_stocks (min 20 (length (get_all_stock_files repo_two))),
             Html_report_generated,
             Charts_created (length (rep_gallery h)),
             Table_includes (length (rep_table h))]"
    by (rule exI [of _ h])
      (rule conjI [OF h two [THEN conjunct2, THEN conjunct2, THEN conjunct2, THEN mp, OF h]])
  show ?thesis
    by (intro conjI) (rule one zero diff report)+
qed

text \<open>
  C3, as the claim states it, fails for the report run. With a single revision it writes
  its report and ends with status 0. With no revision it stops early, and the status is
  0 as well.
\<close>

theorem early_stop_counterexample:
  "get_commit_history repo_one = Inr [\<lparr>c_hash = ''c1'', c_timestamp = ''2024-01-01 10:00:00 +0000''\<rparr>]
   \<and> artifact (main_report float_digits repo_one) \<noteq> None
   \<and> exit_status (main_report float_digits repo_one) = 0
   \<and> get_commit_history repo_none = Inr []
   \<and> artifact (main_report float_digits repo_none) = None
   \<and> exit_status (main_report float_digits repo_none) = 0"
  by code_simp




text \<open>
  C5 at the line \<^verbatim>\<open>Price:Price:5\<close>. What follows the prefix is \<^verbatim>\<open>Price:5\<close>, which is not
  a number, yet the parser returns the price 5: \<^verbatim>\<open>replace\<close> has removed both occurrences
  of \<^verbatim>\<open>Price:\<close>.
\<close>

theorem repeated_prefix_removed:
  "startswith ''Price:Price:5'' ''Price:''
   \<and> drop (length ''Price:'') ''Price:Price:5'' = ''Price:5''
   \<and> float_digits (strip ''Price:5'') = None
   \<and> parse_price_file float_digits (Some ''Price:Price:5'') = (Some 5, None)"
  by code_simp

text \<open>
  C6, as the code has it. When no percent change is NaN, the ranking sort of both
  pipelines puts the records in descending order of the absolute percent change, keeps
  the same records, and keeps the input order among the records of equal absolute
  percent change.
\<close>

theorem ranking_sort_stable:
  assumes "\<forall>c \<in> set changes. percent_change c \<noteq> NaN"
    and "\<forall>x \<in> set stocks. st_percent_change (sd_stats x) \<noteq> NaN"
  shows "sorted_wrt (\<lambda>a b. \<bar>percent_change a\<bar> \<ge> \<bar>percent_change b\<bar>)
     (sort_reverse (\<lambda>x. \<bar>percent_change x\<bar>) changes)
   \<and> mset (sort_reverse (\<lambda>x. \<bar>percent_change x\<bar>) changes) = mset changes
   \<and> filter (\<lambda>y. \<bar>percent_change y\<bar> = m) (sort_reverse (\<lambda>x. \<bar>percent_change x\<bar>) changes)
       = filter (\<lambda>y. \<bar>percent_change y\<bar> = m) changes
   \<and> sorted_wrt (\<lambda>a b. \<bar>st_percent_change (sd_stats a)\<bar> \<ge> \<bar>st_percent_change (sd_stats b)\<bar>)
     (sort_reverse (\<lambda>x. \<bar>st_percent_change (sd_stats x)\<bar>) stocks)
   \<and> mset (sort_reverse (\<lambda>x. \<bar>st_percent_change (sd_stats x)\<bar>) stocks) = mset stocks
   \<and> filter (\<lambda>y. \<bar>st_percent_change (sd_stats y)\<bar> = m)
         (sort_reverse (\<lambda>x. \<bar>st_percent_change (sd_stats x)\<bar>) stocks)
       = filter (\<lambda>y. \<bar>st_percent_change (sd_stats y)\<bar> = m) stocks"
proof -
  from assms(1) have c: "\<forall>c \<in> set changes. \<bar>percent_change c\<bar> \<noteq> NaN"
    by (simp add: abs_NaN)
  from assms(2) have s: "\<forall>x \<in> set stocks. \<bar>st_percent_change (sd_stats x)\<bar> \<noteq> NaN"
    by (simp add: abs_NaN)
  show ?thesis
    using sort_reverse_descending [of changes "\<lambda>x. \<bar>percent_change x\<bar>", OF c]
      sort_reverse_descending [of stocks "\<lambda>x. \<bar>st_percent_change (sd_stats x)\<bar>", OF s]
      sort_reverse_stable [of changes "\<lambda>x. \<bar>percent_change x\<bar>" m, OF c]
      sort_reverse_stable [of stocks "\<lambda>x. \<bar>st_percent_change (sd_stats x)\<bar>" m, OF s]
    by (simp add: mset_sort_reverse)
qed

theorem ranking_sort_stable_witness:
  "sort_reverse (\<lambda>x. \<bar>percent_change x\<bar>)
     [\<lparr>ticker = ''BBB'', previous_price = 0, current_price = 5, price_change = 5,
       percent_change = 0, previous_time = None, current_time = None\<rparr>,
      \<lparr>ticker = ''AAA'', previous_price = 100, current_price = 110, price_change = 10,
       percent_change = 10, previous_time = None, current_time = None\<rparr>]
   = [\<lparr>ticker = ''AAA'', previous_price = 100, current_price = 110, price_change = 10,
       percent_change = 10, previous_time = None, current_time = None\<rparr>,
      \<lparr>ticker = ''BBB'', previous_price = 0, current_price = 5, price_change = 5,
       percent_change = 0, previous_time = None, current_time = None\<rparr>]
   \<and> sorted_wrt (\<lambda>a b. \<bar>percent_change a\<bar> \<ge> \<bar>percent_change b\<bar>)
     (sort_reverse (\<lambda>x. \<bar>percent_change x\<bar>)
     [\<lparr>ticker = ''BBB'', previous_price = 0, current_price = 5, price_change = 5,
       percent_change = 0, previous_time = None, current_time = None\<rparr>,
      \<lparr>ticker = ''AAA'', previous_price = 100, current_price = 110, price_change = 10,
       percent_change = 10, previous_time = None, current_time = None\<rparr>])"
proof -
  let ?changes = "[\<lparr>ticker = ''BBB'', previous_price = 0, current_price = 5, price_change = 5,
       percent_change = 0, previous_time = None, current_time = None\<rparr>,
      \<lparr>ticker = ''AAA'', previous_price = 100, current_price = 110, price_change = 10,
       percent_change = 10, previous_time = None, current_time = None\<rparr>]"
  have res: "sort_reverse (\<lambda>x. \<bar>percent_change x\<bar>) ?changes = rev ?changes"
    by code_simp
  have c: "\<forall>c \<in> set ?changes. percent_change c \<noteq> NaN"
    by (simp add: pyfloat_arith)
  have s: "\<forall>x \<in> set ([] :: stock_data list). st_percent_change (sd_stats x) \<noteq> NaN"
    by simp
  note sorted = ranking_sort_stable [OF c s, of 10, THEN conjunct1]
  from res have first: "sort_reverse (\<lambda>x. \<bar>percent_change x\<bar>) ?changes
   = [\<lparr>ticker = ''AAA'', previous_price = 100, current_price = 110, price_change = 10,
       percent_change = 10, previous_time = None, current_time = None\<rparr>,
      \<lparr>ticker = ''BBB'', previous_price = 0, current_price = 5, price_change = 5,
       percent_change = 0, previous_time = None, current_time = None\<rparr>]"
    by simp
  show ?thesis
    by (rule conjI [OF first sorted])
qed

text \<open>
  C6, as the claim states it, fails when a file holds the price \<^verbatim>\<open>nan\<close>: the percent
  changes of \<open>A\<close>, \<open>B\<close> and \<open>C\<close> are 1, NaN and 2, and the sort leaves the records in
  this order, the change of 2 after the change of 1.
\<close>

theorem ranking_sort_counterexample:
  "map_option (\<lambda>r. map (\<lambda>c. (ticker c, percent_change c)) (diff_changes r))
        (artifact (main_diff float_digits repo_nan))
       = Some [(''A'', 1), (''B'', NaN), (''C'', 2)]
   \<and> \<bar>1 :: pyfloat\<bar> < \<bar>2\<bar>"
  by code_simp

text \<open>
  C7. A history whose prices are 100, 90, 80, newest first, has the statistics
  min 80, max 100, average 90, current 100, previous 90 and percent change
  (100 - 90) / 90 * 100, which is 11.11 to two decimals.
\<close>

theorem three_revisions:
  assumes "map h_price history = [100, 90, 80]"
  shows "\<exists>s. calculate_statistics history = Some s
           \<and> st_min s = 80 \<and> st_max s = 100 \<and> st_avg s = 90
           \<and> st_current s = 100 \<and> st_previous s = 90
           \<and> st_percent_change s = (100 - 90) / 90 * 100
           \<and> \<bar>st_percent_change s - 11.11\<bar> < 0.01"
proof -
  from assms have "history \<noteq> []" by auto
  with assms show ?thesis
    by (simp add: calculate_statistics_def Let_def py_sum_def pyfloat_arith)
qed

theorem three_revisions_witness:
  "\<exists>s. calculate_statistics
          [\<lparr>h_timestamp = ''2024-01-03 10:00'', h_price = 100\<rparr>,
           \<lparr>h_timestamp = ''2024-01-02 10:00'', h_price = 90\<rparr>,
           \<lparr>h_timestamp = ''2024-01-01 10:00'', h_price = 80\<rparr>] = Some s
           \<and> st_min s = 80 \<and> st_max s = 100 \<and> st_avg s = 90
           \<and> st_current s = 100 \<and> st_previous s = 90
           \<and> st_percent_change s = (100 - 90) / 90 * 100
           \<and> \<bar>st_percent_change s - 11.11\<bar> < 0.01"
  by (rule three_revisions) simp


text \<open>
  C8, as the code has it. The gallery has at most 12 entries. Suppose that each of the
  first 20 listed files is the file \<^verbatim>\<open><ticker>.txt\<close> of its own ticker, and that no
  percent change among them is NaN. Then the gallery is in descending order of the
  absolute percent change; each entry belongs to one of these files, and the chart data
  of its ticker are the labels (the first 16 characters of each timestamp) and the prices
  of the history of that file in reverse, the history being in the order of the log,
  newest first; and a file among them that has statistics is in the gallery, or the
  gallery is full and none of its entries moves less.
\<close>

theorem gallery_top_movers:
  assumes "get_commit_history env = Inr commits"
    and "artifact (main_report fl env) = Some h"
    and "\<forall>f \<in> set (take 20 (get_all_stock_files env)). ticker_of f @ ''.txt'' = f"
    and "\<forall>f \<in> set (take 20 (get_all_stock_files env)).
           map_option st_percent_change
             (calculate_statistics (get_price_history fl env (ticker_of f) commits)) \<noteq> Some NaN"
  shows "length (rep_gallery h) \<le> 12
    \<and> sorted_wrt (\<lambda>a b. \<bar>st_percent_change (sd_stats a)\<bar> \<ge> \<bar>st_percent_change (sd_stats b)\<bar>)
         (rep_gallery h)
    \<and> (\<forall>x \<in> set (rep_gallery h). \<exists>f \<in> set (take 20 (get_all_stock_files env)).
          sd_ticker x = ticker_of f
          \<and> sd_ticker x @ ''.txt'' = f
          \<and> sd_history x = get_price_history fl env (sd_ticker x) commits
          \<and> calculate_statistics (sd_history x) = Some (sd_stats x)
          \<and> map_of (rep_chart_data h) (sd_ticker x) =
              Some \<lparr>labels = rev (map (\<lambda>e. take 16 (h_timestamp e)) (sd_history x)),
                    prices = rev (map h_price (sd_history x))\<rparr>)
    \<and> (\<forall>f \<in> set (take 20 (get_all_stock_files env)). \<forall>s.
          calculate_statistics (get_price_history fl env (ticker_of f) commits) = Some s \<longrightarrow>
            \<lparr>sd_ticker = ticker_of f, sd_stats = s,
             sd_history = get_price_history fl env (ticker_of f) commits\<rparr> \<in> set (rep_gallery h)
            \<or> (length (rep_gallery h) = 12
                \<and> (\<forall>x \<in> set (rep_gallery h).
                      \<bar>st_percent_change s\<bar> \<le> \<bar>st_percent_change (sd_stats x)\<bar>)))"
proof -
  let ?tickers = "map ticker_of (take 20 (get_all_stock_files env))"
  let ?collected = "foldl (chart_step fl env commits) ([], []) ?tickers"
  let ?key = "\<lambda>x. \<bar>st_percent_change (sd_stats x)\<bar>"
  let ?ranked = "sort_reverse ?key (fst ?collected)"
  from assms(1,2) have gallery: "rep_gallery h = take 12 ?ranked"
    and data: "rep_chart_data h = snd ?collected"
    using artifact_main_report [of fl env h] by auto
  have source: "\<exists>f \<in> set (take 20 (get_all_stock_files env)).
      sd_ticker x = ticker_of f
      \<and> sd_history x = get_price_history fl env (ticker_of f) commits
      \<and> calculate_statistics (get_price_history fl env (ticker_of f) commits) = Some (sd_stats x)"
    if "x \<in> set (fst ?collected)" for x
  proof -
    from that obtain f where f: "f \<in> set (take 20 (get_all_stock_files env))"
      and x: "x \<in> set (fst (chart_step fl env commits ([], []) (ticker_of f)))"
      by (auto simp: foldl_chart_step_fst)
    from x have "sd_ticker x = ticker_of f
      \<and> sd_history x = get_price_history fl env (ticker_of f) commits
      \<and> calculate_statistics (get_price_history fl env (ticker_of f) commits) = Some (sd_stats x)"
      by (rule chart_step_member)
    with f show ?thesis
      by blast
  qed
  have "st_percent_change (sd_stats x) \<noteq> NaN" if "x \<in> set (fst ?collected)" for x
  proof -
    from source [OF that] obtain f where "f \<in> set (take 20 (get_all_stock_files env))"
      and "calculate_statistics (get_price_history fl env (ticker_of f) commits) = Some (sd_stats x)"
      by blast
    with assms(4) show ?thesis
      by fastforce
  qed
  then have keys: "\<forall>x \<in> set (fst ?collected). ?key x \<noteq> NaN"
    by (simp add: abs_NaN)
  have ranked: "sorted_wrt (\<lambda>a b. ?key a \<ge> ?key b) ?ranked"
    using keys by (rule sort_reverse_descending)
  have len: "length (rep_gallery h) \<le> 12"
    by (simp add: gallery)
  have sorted: "sorted_wrt (\<lambda>a b. ?key a \<ge> ?key b) (rep_gallery h)"
    unfolding gallery using ranked by (rule sorted_wrt_take)
  have members: "\<exists>f \<in> set (take 20 (get_all_stock_files env)).
          sd_ticker x = ticker_of f
          \<and> sd_ticker x @ ''.txt'' = f
          \<and> sd_history x = get_price_history fl env (sd_ticker x) commits
          \<and> calculate_statistics (sd_history x) = Some (sd_stats x)
          \<and> map_of (rep_chart_data h) (sd_ticker x) =
              Some \<lparr>labels = rev (map (\<lambda>e. take 16 (h_timestamp e)) (sd_history x)),
                    prices = rev (map h_price (sd_history x))\<rparr>"
    if "x \<in> set (rep_gallery h)" for x
  proof -
    from that have "x \<in> set ?ranked"
      unfolding gallery by (rule in_set_takeD)
    then have "x \<in> set (fst ?collected)"
      by (simp only: set_sort_reverse)
    from source [OF this] obtain f where f: "f \<in> set (take 20 (get_all_stock_files env))"
      and t: "sd_ticker x = ticker_of f"
      and hist: "sd_history x = get_price_history fl env (ticker_of f) commits"
      and st: "calculate_statistics (get_price_history fl env (ticker_of f) commits) = Some (sd_stats x)"
      by blast
    from f assms(3) have path: "ticker_of f @ ''.txt'' = f"
      by blast
    from f have "ticker_of f \<in> set ?tickers"
      by simp
    with st have "map_of (snd ?collected) (ticker_of f) =
        Some (chart_of (get_price_history fl env (ticker_of f) commits))"
      by (simp add: map_of_foldl_chart_step)
    with t hist data have "map_of (rep_chart_data h) (sd_ticker x) =
              Some \<lparr>labels = rev (map (\<lambda>e. take 16 (h_timestamp e)) (sd_history x)),
                    prices = rev (map h_price (sd_history x))\<rparr>"
      by (simp add: chart_of_def rev_map)
    with f t hist st path show ?thesis
      by auto
  qed
  have top: "\<lparr>sd_ticker = ticker_of f, sd_stats = s,
             sd_history = get_price_history fl env (ticker_of f) commits\<rparr> \<in> set (rep_gallery h)
            \<or> (length (rep_gallery h) = 12
                \<and> (\<forall>x \<in> set (rep_gallery h).
                      \<bar>st_percent_change s\<bar> \<le> \<bar>st_percent_change (sd_stats x)\<bar>))"
    if f: "f \<in> set (take 20 (get_all_stock_files env))"
      and s: "calculate_statistics (get_price_history fl env (ticker_of f) commits) = Some s"
    for f s
  proof -
    let ?y = "\<lparr>sd_ticker = ticker_of f, sd_stats = s,
             sd_history = get_price_history fl env (ticker_of f) commits\<rparr>"
    from s have "?y \<in> set (fst (chart_step fl env commits ([], []) (ticker_of f)))"
      by (rule chart_step_candidate)
    with f have "?y \<in> set ?ranked"
      by (auto simp: set_sort_reverse foldl_chart_step_fst)
    from top_of_sorted [OF ranked this, of 12] show ?thesis
      unfolding gallery by auto
  qed
  from len sorted members top show ?thesis
    by blast
qed

theorem gallery_top_movers_witness:
  "\<exists>h. artifact (main_report float_digits repo_two) = Some h
    \<and> (length (rep_gallery h) \<le> 12
    \<and> sorted_wrt (\<lambda>a b. \<bar>st_percent_change (sd_stats a)\<bar> \<ge> \<bar>st_percent_change (sd_stats b)\<bar>)
         (rep_gallery h)
    \<and> (\<forall>x \<in> set (rep_gallery h). \<exists>f \<in> set (take 20 (get_all_stock_files repo_two)).
          sd_ticker x = ticker_of f
          \<and> sd_ticker x @ ''.txt'' = f
          \<and> sd_history x = get_price_history float_digits repo_two (sd_ticker x)
               [\<lparr>c_hash = ''c2'', c_timestamp = ''2024-01-02 10:00:00 +0000''\<rparr>,
                \<lparr>c_hash = ''c1'', c_timestamp = ''2024-01-01 10:00:00 +0000''\<rparr>]
          \<and> calculate_statistics (sd_history x) = Some (sd_stats x)
          \<and> map_of (rep_chart_data h) (sd_ticker x) =
              Some \<lparr>labels = rev (map (\<lambda>e. take 16 (h_timestamp e)) (sd_history x)),
                    prices = rev (map h_price (sd_history x))\<rparr>)
    \<and> (\<forall>f \<in> set (take 20 (get_all_stock_files repo_two)). \<forall>s.
          calculate_statistics (get_price_history float_digits repo_two (ticker_of f)
               [\<lparr>c_hash = ''c2'', c_timestamp = ''2024-01-02 10:00:00 +0000''\<rparr>,
                \<lparr>c_hash = ''c1'', c_timestamp = ''2024-01-01 10:00:00 +0000''\<rparr>]) = Some s \<longrightarrow>
            \<lparr>sd_ticker = ticker_of f, sd_stats = s,
             sd_history = get_price_history float_digits repo_two (ticker_of f)
               [\<lparr>c_hash = ''c2'', c_timestamp = ''2024-01-02 10:00:00 +0000''\<rparr>,
                \<lparr>c_hash = ''c1'', c_timestamp = ''2024-01-01 10:00:00 +0000''\<rparr>]\<rparr>
              \<in> set (rep_gallery h)
            \<or> (length (rep_gallery h) = 12
                \<and> (\<forall>x \<in> set (rep_gallery h).
                      \<bar>st_percent_change s\<bar> \<le> \<bar>st_percent_change (sd_stats x)\<bar>))))"
proof -
  have listed: "get_commit_history repo_two =
      Inr [\<lparr>c_hash = ''c2'', c_timestamp = ''2024-01-02 10:00:00 +0000''\<rparr>,
           \<lparr>c_hash = ''c1'', c_timestamp = ''2024-01-01 10:00:00 +0000''\<rparr>]"
    by code_simp
  have "artifact (main_report float_digits repo_two) \<noteq> None"
    by code_simp
  then obtain h where h: "artifact (main_report float_digits repo_two) = Some h"
    by (cases "artifact (main_report float_digits repo_two)") simp_all
  have paths: "\<forall>f \<in> set (take 20 (get_all_stock_files repo_two)). ticker_of f @ ''.txt'' = f"
    by code_simp
  have keys: "\<forall>f \<in> set (take 20 (get_all_stock_files repo_two)).
           map_option st_percent_change
             (calculate_statistics (get_price_history float_digits repo_two (ticker_of f)
               [\<lparr>c_hash = ''c2'', c_timestamp = ''2024-01-02 10:00:00 +0000''\<rparr>,
                \<lparr>c_hash = ''c1'', c_timestamp = ''2024-01-01 10:00:00 +0000''\<rparr>])) \<noteq> Some NaN"
    by code_simp
  show ?thesis
    by (rule exI [of _ h]) (rule conjI [OF h gallery_top_movers [OF listed h paths keys]])
qed

text \<open>
  C8, as the claim states it, fails with 21 tracked files: \<open>T21\<close> is tracked and has the
  largest percent change, 100, and the gallery shows \<open>T01\<close> to \<open>T12\<close>, which did not move.
\<close>

theorem gallery_counterexample:
  "''T21.txt'' \<in> set (get_all_stock_files repo_many)
   \<and> map_option st_percent_change
        (calculate_statistics (get_price_history float_digits repo_many ''T21''
           [\<lparr>c_hash = ''c2'', c_timestamp = ''2024-01-02 10:00:00 +0000''\<rparr>,
            \<lparr>c_hash = ''c1'', c_timestamp = ''2024-01-01 10:00:00 +0000''\<rparr>])) = Some 100
   \<and> map_option (\<lambda>h. map (\<lambda>x. (sd_ticker x, st_percent_change (sd_stats x))) (rep_gallery h))
        (artifact (main_report float_digits repo_many))
       = Some [(''T01'', 0), (''T02'', 0), (''T03'', 0), (''T04'', 0), (''T05'', 0), (''T06'', 0),
               (''T07'', 0), (''T08'', 0), (''T09'', 0), (''T10'', 0), (''T11'', 0), (''T12'', 0)]"
  by code_simp

text \<open>
  C9 at a repository that tracks both \<^verbatim>\<open>main.txt\<close> and \<^verbatim>\<open>sub/main.txt\<close>. The discovery
  lists \<^verbatim>\<open>sub/main.txt\<close> only. The diff pipeline reads that path and reports the ticker
  \<open>main\<close> going from 100 to 110. The report pipeline builds the path again from the
  ticker, reads \<^verbatim>\<open>main.txt\<close>, and charts its prices 2 and 1 under the ticker \<open>main\<close>.
\<close>

theorem report_reads_main_txt:
  "get_all_stock_files repo_shadow = [''sub/main.txt'']
   \<and> map_option (\<lambda>r. map (\<lambda>c. (ticker c, previous_price c, current_price c)) (diff_changes r))
        (artifact (main_diff float_digits repo_shadow))
       = Some [(''main'', 100, 110)]
   \<and> map_option (\<lambda>h. map (\<lambda>x. (sd_ticker x, map h_price (sd_history x))) (rep_gallery h))
        (artifact (main_report float_digits repo_shadow))
       = Some [(''main'', [2, 1])]"
  by code_simp

text \<open>
  C10, as the code has it. The history has one entry for each commit whose file gives a
  price, in the order of the commits. Its timestamp is a string: the parsed
  \<^verbatim>\<open>Updated:\<close> timestamp when that is present and not empty, and the timestamp of the
  commit otherwise.
\<close>

theorem history_timestamps:
  "get_price_history fl env name commits =
     concat (map (\<lambda>c.
       case parse_price_file fl (get_file_content env (c_hash c) (name @ ''.txt'')) of
         (Some p, ts) \<Rightarrow>
           [\<lparr>h_timestamp = (case ts of
                               None \<Rightarrow> c_timestamp c
                             | Some t \<Rightarrow> if t = [] then c_timestamp c else t),
             h_price = p\<rparr>]
       | (None, ts) \<Rightarrow> []) commits)"
proof -
  have "history_step fl env (name @ ''.txt'') [] =
      (\<lambda>c. case parse_price_file fl (get_file_content env (c_hash c) (name @ ''.txt'')) of
         (Some p, ts) \<Rightarrow>
           [\<lparr>h_timestamp = (case ts of
                               None \<Rightarrow> c_timestamp c
                             | Some t \<Rightarrow> if t = [] then c_timestamp c else t),
             h_price = p\<rparr>]
       | (None, ts) \<Rightarrow> [])"
    by (rule ext) (simp add: history_step_def Let_def or_else_def split: option.splits prod.splits)
  then show ?thesis
    by (simp add: get_price_history_def foldl_history_step)
qed

text \<open>
  C10, as the claim states it, fails on a file with the lines \<^verbatim>\<open>Updated:\<close> and
  \<^verbatim>\<open>Price: 5\<close>: the parsed timestamp is present, as the empty string, and the entry
  carries the timestamp of the commit.
\<close>

theorem history_timestamps_counterexample:
  "parse_price_file float_digits (get_file_content repo_blank ''c1'' ''AAA.txt'') = (Some 5, Some [])
   \<and> get_price_history float_digits repo_blank ''AAA''
        [\<lparr>c_hash = ''c1'', c_timestamp = ''2024-01-01 10:00:00 +0000''\<rparr>]
      = [\<lparr>h_timestamp = ''2024-01-01 10:00:00 +0000'', h_price = 5\<rparr>]"
  by code_simp

end
